theory Spec2Isabelle
  imports
    Complex_Main
    "HOL-Library.Word"
    "HOL-Library.Char_ord"
    "HOL-Library.List_Lexorder"
    "HOL-Library.Product_Lexorder"
begin

section \<open>Shared data model\<close>

text \<open>
  The scripts exchange long-format tables with the columns
  \<open>biomarker\<close>, \<open>dependency\<close>, \<open>importance_score\<close>.  A row of such a table is
  a triple.  Finite float64 values are idealised as reals; where the source can
  meet a NaN it is written out as \<open>None\<close>.
\<close>

type_synonym edge = "string \<times> string \<times> real"

text \<open>
  The exceptions the scripts raise; each one ends the run.  \<open>ParserError\<close> stands
  for whatever \<open>read_csv\<close> raises on a file that exists and cannot be read as a
  table.
\<close>

datatype py_error = FileNotFoundError | ValueError | RuntimeError | KeyError | ParserError

definition e_biomarker :: "edge \<Rightarrow> string" where
  "e_biomarker e = fst e"

definition e_dependency :: "edge \<Rightarrow> string" where
  "e_dependency e = fst (snd e)"

definition e_score :: "edge \<Rightarrow> real" where
  "e_score e = snd (snd e)"

section \<open>float64 values\<close>

text \<open>
  A float64 as the scripts meet it in a table read from a file: a finite number
  (idealised as a real, rounding left out), an infinity or NaN.  The two zeros
  are not told apart.
\<close>

datatype float64 = Finite real | PlusInf | MinusInf | NaN

text \<open>
  The order of the values that are not NaN: \<open>-inf\<close> below every finite number,
  \<open>+inf\<close> above.  A comparison with NaN is false.
\<close>

fun asc_key :: "float64 \<Rightarrow> nat \<times> real" where
  "asc_key MinusInf = (0, 0)"
| "asc_key (Finite x) = (1, x)"
| "asc_key PlusInf = (2, 0)"
| "asc_key NaN = (3, 0)"

definition f_less :: "float64 \<Rightarrow> float64 \<Rightarrow> bool" where
  "f_less a b \<longleftrightarrow> a \<noteq> NaN \<and> b \<noteq> NaN \<and> asc_key a < asc_key b"

definition f_le :: "float64 \<Rightarrow> float64 \<Rightarrow> bool" where
  "f_le a b \<longleftrightarrow> a \<noteq> NaN \<and> b \<noteq> NaN \<and> asc_key a \<le> asc_key b"

fun f_abs :: "float64 \<Rightarrow> float64" where
  "f_abs (Finite x) = Finite \<bar>x\<bar>"
| "f_abs PlusInf = PlusInf"
| "f_abs MinusInf = PlusInf"
| "f_abs NaN = NaN"

text \<open>
  Division: \<open>inf / inf\<close> and \<open>0 / 0\<close> are NaN, a finite number over an infinity is
  zero, a non-zero number over zero is an infinity.
\<close>

fun f_div :: "float64 \<Rightarrow> float64 \<Rightarrow> float64" where
  "f_div NaN b = NaN"
| "f_div a NaN = NaN"
| "f_div (Finite x) (Finite y) =
     (if y = 0 then (if x = 0 then NaN else if 0 < x then PlusInf else MinusInf)
      else Finite (x / y))"
| "f_div (Finite x) PlusInf = Finite 0"
| "f_div (Finite x) MinusInf = Finite 0"
| "f_div PlusInf (Finite y) = (if y < 0 then MinusInf else PlusInf)"
| "f_div MinusInf (Finite y) = (if y < 0 then PlusInf else MinusInf)"
| "f_div PlusInf PlusInf = NaN"
| "f_div PlusInf MinusInf = NaN"
| "f_div MinusInf PlusInf = NaN"
| "f_div MinusInf MinusInf = NaN"

text \<open>
  \<open>Series.max()\<close>: NaN entries are skipped; the result is NaN when nothing is
  left.
\<close>

definition f_max :: "float64 list \<Rightarrow> float64" where
  "f_max xs =
     (case filter (\<lambda>x. x \<noteq> NaN) xs of
        [] \<Rightarrow> NaN
      | y # ys \<Rightarrow> fold (\<lambda>x m. if f_less m x then x else m) ys y)"

text \<open>
  The key of a descending sort, with NaN last as \<open>sort_values\<close> places it.
\<close>

fun desc_key :: "float64 \<Rightarrow> nat \<times> real" where
  "desc_key PlusInf = (0, 0)"
| "desc_key (Finite x) = (1, - x)"
| "desc_key MinusInf = (2, 0)"
| "desc_key NaN = (3, 0)"

section \<open>Correlation Scorer (feature_selection.py)\<close>

definition TOPK_PER_BIOMARKER :: nat where
  "TOPK_PER_BIOMARKER = 50"

definition MIN_ABS_CORR :: real where
  "MIN_ABS_CORR = 0.15"

definition BATCH :: nat where
  "BATCH = 200"

text \<open>A pandas Series indexed by dependency gene, in column order.\<close>

type_synonym series = "(string \<times> real) list"

text \<open>
  A z-scored matrix is held column-wise: column name and the column's values in
  model order.  \<open>corr_block = (bio_z[cols].T @ dep_z) / n\<close>; one row of the block is
  the series of dot products of a biomarker column with every dependency column.
\<close>

type_synonym matrix = "(string \<times> real list) list"

definition dot :: "real list \<Rightarrow> real list \<Rightarrow> real" where
  "dot xs ys = sum_list (map (\<lambda>(x, y). x * y) (zip xs ys))"

definition corr_row :: "real \<Rightarrow> real list \<Rightarrow> matrix \<Rightarrow> series" where
  "corr_row n bcol dep_z = map (\<lambda>(d, dcol). (d, dot bcol dcol / n)) dep_z"

definition corr_block :: "real \<Rightarrow> matrix \<Rightarrow> matrix \<Rightarrow> (string \<times> series) list" where
  "corr_block n cols dep_z = map (\<lambda>(b, bcol). (b, corr_row n bcol dep_z)) cols"

text \<open>\<open>s = corr_block.loc[b].abs()\<close>\<close>

definition series_abs :: "series \<Rightarrow> series" where
  "series_abs s = map (\<lambda>(d, v). (d, \<bar>v\<bar>)) s"

text \<open>
  \<open>Series.nlargest(n)\<close> with the default \<open>keep='first'\<close>: the n largest values in
  descending order, equal values in their original order.
\<close>

definition nlargest :: "nat \<Rightarrow> series \<Rightarrow> series" where
  "nlargest n s = take n (sort_key (\<lambda>(d, v). - v) s)"

text \<open>
  The body of \<open>for b in cols\<close>: the rows appended to \<open>rows_out\<close> for one
  biomarker.  The score that is stored comes from \<open>s\<close>, the series of absolute
  values.
\<close>

definition top_links :: "string \<Rightarrow> series \<Rightarrow> edge list" where
  "top_links b row =
     (let s = series_abs row;
          top = nlargest TOPK_PER_BIOMARKER s;
          top' = filter (\<lambda>(d, v). v \<ge> MIN_ABS_CORR) top
      in map (\<lambda>(dep_gene, score). (b, dep_gene, score)) top')"

definition block_rows :: "(string \<times> series) list \<Rightarrow> edge list" where
  "block_rows blk = concat (map (\<lambda>(b, row). top_links b row) blk)"

text \<open>\<open>for i in range(0, len(biomarker_names), BATCH)\<close> with \<open>cols = names[i:i+BATCH]\<close>.\<close>

function batch_loop :: "real \<Rightarrow> matrix \<Rightarrow> matrix \<Rightarrow> nat \<Rightarrow> edge list" where
  "batch_loop n bio_z dep_z i =
     (if i < length bio_z
      then block_rows (corr_block n (take BATCH (drop i bio_z)) dep_z)
             @ batch_loop n bio_z dep_z (i + BATCH)
      else [])"
  by pat_completeness auto
termination
  by (relation "measure (\<lambda>(n, bio_z, dep_z, i). length bio_z - i)") (auto simp: BATCH_def)

declare batch_loop.simps [simp del]

definition rows_out :: "real \<Rightarrow> matrix \<Rightarrow> matrix \<Rightarrow> edge list" where
  "rows_out n bio_z dep_z = batch_loop n bio_z dep_z 0"

text \<open>The values of one \<open>groupby("dependency")\<close> group, in row order.\<close>

definition group_scores :: "string \<Rightarrow> edge list \<Rightarrow> real list" where
  "group_scores d rows = map e_score (filter (\<lambda>e. e_dependency e = d) rows)"

text \<open>
  \<open>x.max()\<close> of a group.  The groups of a \<open>groupby\<close> are never empty, and the
  scores that reach a group are numbers, so the empty case is left out.
\<close>

fun series_max :: "real list \<Rightarrow> real" where
  "series_max (x # xs) = fold max xs x"

text \<open>\<open>x.max() if x.max() > 0 else 1.0\<close>\<close>

definition renorm_divisor :: "real list \<Rightarrow> real" where
  "renorm_divisor xs = (if series_max xs > 0 then series_max xs else 1.0)"

text \<open>
  \<open>groupby("dependency")["importance_score"].transform(lambda x: x / ...)\<close>,
  applied only when the frame is not empty; the rows keep their order.
\<close>

definition renormalize :: "edge list \<Rightarrow> edge list" where
  "renormalize rows =
     (if rows \<noteq> []
      then map (\<lambda>(b, d, w). (b, d, w / renorm_divisor (group_scores d rows))) rows
      else rows)"

text \<open>
  The script from the overlap check on: \<open>common_models\<close> is the list of shared
  model ids, \<open>n = float(len(common_models))\<close>, and the run stops with a
  ValueError when there is none.  The result is the frame written to
  \<open>processed_features.csv\<close>.
\<close>

definition correlation_scorer :: "string list \<Rightarrow> matrix \<Rightarrow> matrix \<Rightarrow> py_error + edge list" where
  "correlation_scorer common_models bio_z dep_z =
     (if length common_models = 0 then Inl ValueError
      else Inr (renormalize (rows_out (real (length common_models)) bio_z dep_z)))"

section \<open>Edge Sparsifier and Bipartite Graph Builder (community_detection.py)\<close>

definition EDGE_MIN :: real where
  "EDGE_MIN = 0.015"

definition TOPK_PER_DEP :: nat where
  "TOPK_PER_DEP = 250"

definition TOPK_PER_BM :: nat where
  "TOPK_PER_BM = 150"

text \<open>
  A row of \<open>processed_features.csv\<close> as read: biomarker, dependency and the
  float64 cell of \<open>importance_score\<close>, which may be empty (NaN) or an infinity.
  \<open>dependencies.csv\<close> enters as the values of its \<open>dependency\<close> column (the first
  column when no column has that name), each turned into a string.
\<close>

type_synonym feature_row = "string \<times> string \<times> float64"

definition row_biomarker :: "feature_row \<Rightarrow> string" where
  "row_biomarker r = fst r"

definition row_dependency :: "feature_row \<Rightarrow> string" where
  "row_dependency r = fst (snd r)"

definition row_score :: "feature_row \<Rightarrow> float64" where
  "row_score r = snd (snd r)"

text \<open>\<open>features_df[features_df["dependency"].astype(str).isin(valid_deps)]\<close>\<close>

definition keep_listed :: "string set \<Rightarrow> feature_row list \<Rightarrow> feature_row list" where
  "keep_listed valid_deps df = filter (\<lambda>r. row_dependency r \<in> valid_deps) df"

text \<open>
  \<open>features_df[features_df["importance_score"] > 0]\<close>: a comparison with NaN is
  false, so rows without a score go as well; \<open>+inf\<close> stays.
\<close>

definition keep_positive :: "feature_row list \<Rightarrow> feature_row list" where
  "keep_positive df = filter (\<lambda>r. f_less (Finite 0) (row_score r)) df"

text \<open>\<open>Series.unique()\<close>: the distinct values in order of first appearance.\<close>

fun unique_from :: "'a list \<Rightarrow> 'a list \<Rightarrow> 'a list" where
  "unique_from seen [] = []"
| "unique_from seen (x # xs) =
     (if x \<in> set seen then unique_from seen xs else x # unique_from (x # seen) xs)"

definition unique :: "'a list \<Rightarrow> 'a list" where
  "unique xs = unique_from [] xs"

text \<open>The scores of one \<open>groupby("dependency")\<close> group, in row order.\<close>

definition group_values :: "string \<Rightarrow> feature_row list \<Rightarrow> float64 list" where
  "group_values d df = map row_score (filter (\<lambda>r. row_dependency r = d) df)"

text \<open>
  \<open>groupby("dependency")["importance_score"].transform(lambda x: x / x.max())\<close>;
  here the division has no guard.
\<close>

definition normalize_per_dependency :: "feature_row list \<Rightarrow> feature_row list" where
  "normalize_per_dependency df =
     map (\<lambda>(b, d, w). (b, d, f_div w (f_max (group_values d df)))) df"

text \<open>\<open>features_df[features_df["importance_score"] >= EDGE_MIN]\<close>\<close>

definition drop_small :: "feature_row list \<Rightarrow> feature_row list" where
  "drop_small df = filter (\<lambda>r. f_le (Finite EDGE_MIN) (row_score r)) df"

text \<open>
  \<open>groupby(key).head(n)\<close> keeps a row when fewer than n earlier rows of the frame
  belong to the same group; the rows stay in the order of the frame.
\<close>

fun group_head :: "('r \<Rightarrow> 'k) \<Rightarrow> nat \<Rightarrow> 'r list \<Rightarrow> 'r list \<Rightarrow> 'r list" where
  "group_head key n seen [] = []"
| "group_head key n seen (x # xs) =
     (if length (filter (\<lambda>y. key y = key x) seen) < n then [x] else [])
       @ group_head key n (x # seen) xs"

definition groupby_head :: "('r \<Rightarrow> 'k) \<Rightarrow> nat \<Rightarrow> 'r list \<Rightarrow> 'r list" where
  "groupby_head key n df = group_head key n [] df"

text \<open>
  \<open>sort_values([name, "importance_score"], ascending=[True, False])\<close>: a stable
  sort on the pair of keys, the name ascending and the score descending.
\<close>

definition topk_per_dependency :: "feature_row list \<Rightarrow> feature_row list" where
  "topk_per_dependency df =
     groupby_head row_dependency TOPK_PER_DEP
       (sort_key (\<lambda>r. (row_dependency r, desc_key (row_score r))) df)"

definition topk_per_biomarker :: "feature_row list \<Rightarrow> feature_row list" where
  "topk_per_biomarker df =
     groupby_head row_biomarker TOPK_PER_BM
       (sort_key (\<lambda>r. (row_biomarker r, desc_key (row_score r))) df)"

text \<open>The three sparsification steps after the normalisation, in the order of the script.\<close>

definition sparsify :: "feature_row list \<Rightarrow> feature_row list" where
  "sparsify df = topk_per_biomarker (topk_per_dependency (drop_small df))"

text \<open>
  A NetworkX \<open>Graph\<close>: the node dictionary holds each node's \<open>bipartite\<close>
  attribute (\<open>None\<close> for a node without it), the adjacency holds the weight of each
  edge under both orientations.
\<close>

datatype node_class = Biomarker | Dependency

record graph =
  g_node :: "string \<rightharpoonup> node_class option"
  g_adj :: "string \<Rightarrow> string \<rightharpoonup> float64"

definition empty_graph :: graph where
  "empty_graph = \<lparr>g_node = Map.empty, g_adj = (\<lambda>u. Map.empty)\<rparr>"

text \<open>\<open>add_nodes_from(names, bipartite=c)\<close>: a node already there gets its attribute overwritten.\<close>

definition add_nodes_from :: "string list \<Rightarrow> node_class \<Rightarrow> graph \<Rightarrow> graph" where
  "add_nodes_from ns c g = fold (\<lambda>n g. g\<lparr>g_node := (g_node g)(n \<mapsto> Some c)\<rparr>) ns g"

text \<open>\<open>add_edge(u, v, weight=w)\<close>: missing endpoints become nodes without attributes.\<close>

definition ensure_node :: "string \<Rightarrow> (string \<rightharpoonup> node_class option) \<Rightarrow> (string \<rightharpoonup> node_class option)" where
  "ensure_node u m = (case m u of None \<Rightarrow> m(u \<mapsto> None) | Some a \<Rightarrow> m)"

definition add_edge :: "string \<Rightarrow> string \<Rightarrow> float64 \<Rightarrow> graph \<Rightarrow> graph" where
  "add_edge u v w g =
     \<lparr>g_node = ensure_node v (ensure_node u (g_node g)),
      g_adj = (let a = (g_adj g)(u := (g_adj g u)(v \<mapsto> w))
               in a(v := (a v)(u \<mapsto> w)))\<rparr>"

text \<open>The edge loop with its guard \<open>biomarker in biomarkers and dep in valid_deps\<close>.\<close>

definition build_edges :: "string list \<Rightarrow> string set \<Rightarrow> feature_row list \<Rightarrow> graph \<Rightarrow> graph" where
  "build_edges biomarkers valid_deps df g =
     fold (\<lambda>(biomarker, dep, w) g.
             if biomarker \<in> set biomarkers \<and> dep \<in> valid_deps
             then add_edge biomarker dep w g else g) df g"

text \<open>The frame after the two row filters, and the node lists taken from it.\<close>

definition filtered_features :: "feature_row list \<Rightarrow> string list \<Rightarrow> feature_row list" where
  "filtered_features features_df dep_names =
     keep_positive (keep_listed (set dep_names) features_df)"

definition biomarkers_of :: "feature_row list \<Rightarrow> string list \<Rightarrow> string list" where
  "biomarkers_of features_df dep_names =
     unique (map row_biomarker (filtered_features features_df dep_names))"

text \<open>The frame the edge loop runs over.\<close>

definition sparsified_features :: "feature_row list \<Rightarrow> string list \<Rightarrow> feature_row list" where
  "sparsified_features features_df dep_names =
     sparsify (normalize_per_dependency (filtered_features features_df dep_names))"

text \<open>The first half of the script: from the two tables to the graph that is pickled.\<close>

definition network_build :: "feature_row list \<Rightarrow> string list \<Rightarrow> graph" where
  "network_build features_df dep_names =
     (let valid_deps = set dep_names;
          biomarkers = biomarkers_of features_df dep_names;
          dependencies = sorted_list_of_set valid_deps;
          B = add_nodes_from dependencies Dependency
                (add_nodes_from biomarkers Biomarker empty_graph)
      in build_edges biomarkers valid_deps (sparsified_features features_df dep_names) B)"

section \<open>The earlier graph builder (network_build.py)\<close>

text \<open>
  \<open>features_df["dependency"].astype(str).map(achid_to_gene).fillna(...)\<close>: a
  dependency that the optional mapping file knows is renamed, any other stays.
  Without the file the mapping is empty.
\<close>

definition map_dependencies :: "(string \<rightharpoonup> string) \<Rightarrow> feature_row list \<Rightarrow> feature_row list" where
  "map_dependencies achid_to_gene df =
     map (\<lambda>(b, d, w). (b, case achid_to_gene d of None \<Rightarrow> d | Some g \<Rightarrow> g, w)) df"

text \<open>
  \<open>sort_values(by="importance_score", ascending=False).head(500000)\<close>; the order
  among equal scores is left open by pandas and taken as the order of the frame.
\<close>

definition top_edges :: "feature_row list \<Rightarrow> feature_row list" where
  "top_edges df = take 500000 (sort_key (\<lambda>r. desc_key (row_score r)) df)"

text \<open>\<open>B.add_weighted_edges_from(edges)\<close>: every row becomes an edge, with no test.\<close>

definition add_weighted_edges_from :: "feature_row list \<Rightarrow> graph \<Rightarrow> graph" where
  "add_weighted_edges_from edges g = fold (\<lambda>(u, v, w) g. add_edge u v w g) edges g"

text \<open>
  The script up to the pickled graph: the feature rows, the optional mapping and
  the \<open>dependency\<close> column (or first column) of \<open>dependencies.csv\<close>.
\<close>

definition network_build_py ::
    "feature_row list \<Rightarrow> (string \<rightharpoonup> string) \<Rightarrow> string list \<Rightarrow> graph" where
  "network_build_py features_df achid_to_gene dep_names =
     (let df = map_dependencies achid_to_gene features_df;
          dependencies = unique dep_names;
          biomarkers = unique (map row_biomarker df);
          B = add_nodes_from dependencies Dependency
                (add_nodes_from biomarkers Biomarker empty_graph)
      in add_weighted_edges_from (top_edges df) B)"

section \<open>Community Partitioner (community_detection.py)\<close>

text \<open>
  A Python dictionary with its insertion order: assigning to a key that is
  present replaces the value in place, a new key goes to the end.
\<close>

fun dict_set :: "'k \<Rightarrow> 'v \<Rightarrow> ('k \<times> 'v) list \<Rightarrow> ('k \<times> 'v) list" where
  "dict_set k v [] = [(k, v)]"
| "dict_set k v ((k', v') # kvs) =
     (if k' = k then (k', v) # kvs else (k', v') # dict_set k v kvs)"

text \<open>
  \<open>partition = {node: i for i, community in enumerate(partition_sets) for node in community}\<close>;
  each community is given as the list of its nodes in iteration order.  The
  comprehension fills a dictionary pair by pair.
\<close>

definition assign_communities ::
    "(nat \<times> string list) list \<Rightarrow> (string \<times> int) list \<Rightarrow> (string \<times> int) list" where
  "assign_communities L p =
     fold (\<lambda>(i, community) p. fold (\<lambda>node p. dict_set node (int i) p) community p) L p"

definition partition_of :: "string list list \<Rightarrow> (string \<times> int) list" where
  "partition_of partition_sets = assign_communities (enumerate 0 partition_sets) []"

definition number_of_nodes :: "graph \<Rightarrow> nat" where
  "number_of_nodes G = card (dom (g_node G))"

text \<open>
  The second half of the script.  \<open>greedy_modularity_communities\<close> belongs to
  NetworkX and enters as a parameter.  An empty graph is refused with a
  ValueError; otherwise the result is the table written to \<open>communities.csv\<close>,
  one row \<open>(node, community)\<close> per dictionary entry.
\<close>

definition community_detection ::
    "(graph \<Rightarrow> string list list) \<Rightarrow> graph \<Rightarrow> py_error + (string \<times> int) list" where
  "community_detection greedy_modularity_communities G =
     (if number_of_nodes G = 0 then Inl ValueError
      else Inr (partition_of (greedy_modularity_communities G)))"

section \<open>Table Merger (preprocess.py)\<close>

text \<open>
  A cell of a table as \<open>read_csv\<close> delivers it: text, an integer of an int64
  column, or a float64 (NaN for an empty cell).  The cells of one column share
  their dtype; the model does not enforce it.
\<close>

datatype cell = Str string | IntNum "64 word" | Num float64

text \<open>A cell of a numeric column: what \<open>to_numeric\<close> leaves.\<close>

datatype num = I64 "64 word" | F64 float64


text \<open>
  A DataFrame, column by column: the name of the index, the row labels, and
  each column with its name and its values (one per row label).  The cell type
  follows the dtype: \<open>cell\<close> for a frame as read, \<open>num\<close> for a numeric frame,
  \<open>8 word\<close> for int8.
\<close>

record 'c frame =
  index_name :: "string option"
  index :: "cell list"
  columns :: "(string \<times> 'c list) list"

text \<open>
  A source file of a run: absent, present but not readable as a table
  (\<open>read_csv\<close> raises), or the frame \<open>read_csv\<close> returns.
\<close>

datatype csv_file = NoFile | BadFile | CsvFile "cell frame"

definition column_names :: "'c frame \<Rightarrow> string list" where
  "column_names df = map fst (columns df)"

text \<open>\<open>df.shape[0]\<close>\<close>

definition n_rows :: "'c frame \<Rightarrow> nat" where
  "n_rows df = length (index df)"

definition META_COLS_CANDIDATES :: "string set" where
  "META_COLS_CANDIDATES =
     {''Unnamed: 0'', ''SequencingID'', ''IsDefaultEntryForModel'', ''ModelConditionID'',
      ''ProfileID'', ''DataType'', ''Stranded'', ''SequencingDate'', ''DepMapCode'',
      ''Lineage'', ''CellFormat'', ''GrowthMedia'', ''GrowthPattern'', ''SourceModelCondition''}"

definition drop_metadata_cols :: "'c frame \<Rightarrow> string set \<Rightarrow> 'c frame" where
  "drop_metadata_cols df keep =
     df\<lparr>columns := filter (\<lambda>(c, vs). \<not> (c \<in> META_COLS_CANDIDATES \<and> c \<notin> keep)) (columns df)\<rparr>"

text \<open>
  \<open>df.set_index(name, drop=True)\<close>: the column becomes the index and leaves the
  columns; a KeyError when there is no such column.
\<close>

definition set_index :: "string \<Rightarrow> cell frame \<Rightarrow> py_error + cell frame" where
  "set_index name df =
     (case map_of (columns df) name of
        None \<Rightarrow> Inl KeyError
      | Some ids \<Rightarrow>
          Inr \<lparr>index_name = Some name, index = ids,
               columns = filter (\<lambda>(c, vs). c \<noteq> name) (columns df)\<rparr>)"

text \<open>
  \<open>set_index_on_modelid\<close>: the column \<open>ModelID\<close> is preferred; without it the frame
  passes only if its index is already named \<open>ModelID\<close>, and a ValueError is raised
  if not.
\<close>

definition set_index_on_modelid :: "cell frame \<Rightarrow> py_error + cell frame" where
  "set_index_on_modelid df =
     (if ''ModelID'' \<in> set (column_names df) then set_index ''ModelID'' df
      else if index_name df \<noteq> Some ''ModelID'' then Inl ValueError
      else Inr df)"

text \<open>
  \<open>load_omics_table\<close>: a missing file gives \<open>None\<close>, an unreadable one ends the
  run inside \<open>read_csv\<close>.
\<close>

definition load_omics_table :: "csv_file \<Rightarrow> py_error + cell frame option" where
  "load_omics_table file =
     (case file of
        NoFile \<Rightarrow> Inr None
      | BadFile \<Rightarrow> Inl ParserError
      | CsvFile df \<Rightarrow>
          (case set_index_on_modelid (drop_metadata_cols df {''ModelID''}) of
             Inl e \<Rightarrow> Inl e
           | Inr df' \<Rightarrow> Inr (Some df')))"

text \<open>
  \<open>pd.to_numeric(errors="coerce")\<close> on one cell; how pandas reads a text as a
  number (NaN when it is none) is the parameter \<open>parse\<close>.
\<close>

definition to_numeric :: "(string \<Rightarrow> num) \<Rightarrow> cell \<Rightarrow> num" where
  "to_numeric parse c = (case c of Str s \<Rightarrow> parse s | IntNum w \<Rightarrow> I64 w | Num v \<Rightarrow> F64 v)"

text \<open>All columns coerced; the columns that are NaN throughout are dropped.\<close>

definition coerce_numeric_frame :: "(string \<Rightarrow> num) \<Rightarrow> cell frame \<Rightarrow> num frame" where
  "coerce_numeric_frame parse df =
     \<lparr>index_name = index_name df, index = index df,
      columns = filter (\<lambda>(c, vs). \<not> list_all (\<lambda>v. v = F64 NaN) vs)
                  (map (\<lambda>(c, vs). (c, map (to_numeric parse) vs)) (columns df))\<rparr>"

text \<open>
  The cell-wise operations of the two binarizers.  \<open>fillna(0)\<close> replaces NaN;
  \<open>abs()\<close> on an int64 negates in 64 bits, so the least int64 stays as it is;
  a comparison of an int64 with a float goes through the value of the integer;
  \<open>astype(np.int8)\<close> turns a truth value into 1 or 0.
\<close>

definition fillna0 :: "num \<Rightarrow> num" where
  "fillna0 c = (if c = F64 NaN then F64 (Finite 0) else c)"

definition abs64 :: "64 word \<Rightarrow> 64 word" where
  "abs64 w = (if sint w < 0 then - w else w)"

fun num_abs :: "num \<Rightarrow> num" where
  "num_abs (I64 w) = I64 (abs64 w)"
| "num_abs (F64 v) = F64 (f_abs v)"

fun num_gt0 :: "num \<Rightarrow> bool" where
  "num_gt0 (I64 w) = (0 < sint w)"
| "num_gt0 (F64 v) = f_less (Finite 0) v"

fun num_less :: "num \<Rightarrow> float64 \<Rightarrow> bool" where
  "num_less (I64 w) threshold = f_less (Finite (real_of_int (sint w))) threshold"
| "num_less (F64 v) threshold = f_less v threshold"

definition as_int8 :: "bool \<Rightarrow> 8 word" where
  "as_int8 t = (if t then 1 else 0)"

text \<open>\<open>(df.fillna(0).abs() > 0).astype(np.int8)\<close> on one cell.\<close>

definition any_nonzero_cell :: "num \<Rightarrow> 8 word" where
  "any_nonzero_cell c = as_int8 (num_gt0 (num_abs (fillna0 c)))"

text \<open>\<open>(df.fillna(0) < threshold).astype(np.int8)\<close> on one cell.\<close>

definition cnv_loss_cell :: "float64 \<Rightarrow> num \<Rightarrow> 8 word" where
  "cnv_loss_cell threshold c = as_int8 (num_less (fillna0 c) threshold)"

definition map_frame :: "('a \<Rightarrow> 'b) \<Rightarrow> 'a frame \<Rightarrow> 'b frame" where
  "map_frame f df =
     \<lparr>index_name = index_name df, index = index df,
      columns = map (\<lambda>(c, vs). (c, map f vs)) (columns df)\<rparr>"

definition binarize_any_nonzero :: "num frame \<Rightarrow> 8 word frame" where
  "binarize_any_nonzero df = map_frame any_nonzero_cell df"

definition binarize_cnv_loss :: "num frame \<Rightarrow> float64 \<Rightarrow> 8 word frame" where
  "binarize_cnv_loss df threshold = map_frame (cnv_loss_cell threshold) df"

definition CNV_THRESHOLD :: float64 where
  "CNV_THRESHOLD = Finite (- 0.3)"

text \<open>The values of the cells of a frame.\<close>

definition frame_cells :: "'c frame \<Rightarrow> 'c set" where
  "frame_cells df = (\<Union>(c, vs) \<in> set (columns df). set vs)"

text \<open>The merged table holds float64, int64 and int8 columns side by side.\<close>

datatype mcell = Float float64 | Int64 "64 word" | Int8 "8 word"

fun as_mcell :: "num \<Rightarrow> mcell" where
  "as_mcell (I64 w) = Int64 w"
| "as_mcell (F64 v) = Float v"

text \<open>
  \<open>suffix_overlaps\<close>: the columns of the right frame whose names the left frame
  also has are renamed to \<open>name_suffix\<close>.
\<close>

definition suffix_overlaps :: "'c frame \<Rightarrow> 'c frame \<Rightarrow> string \<Rightarrow> 'c frame" where
  "suffix_overlaps left right right_suffix =
     right\<lparr>columns :=
        map (\<lambda>(c, vs). (if c \<in> set (column_names left) then c @ ''_'' @ right_suffix else c, vs))
          (columns right)\<rparr>"

text \<open>
  \<open>left.join(right, how="inner")\<close>: the pairs of row positions with equal labels,
  in the order of the left frame; a ValueError when the frames share a column
  name.
\<close>

definition join_pairs :: "cell list \<Rightarrow> cell list \<Rightarrow> (nat \<times> nat) list" where
  "join_pairs lidx ridx =
     concat (map (\<lambda>(i, x). map (\<lambda>(j, y). (i, j)) (filter (\<lambda>(j, y). y = x) (enumerate 0 ridx)))
               (enumerate 0 lidx))"

definition join_inner :: "'c frame \<Rightarrow> 'c frame \<Rightarrow> py_error + 'c frame" where
  "join_inner left right =
     (if set (column_names left) \<inter> set (column_names right) \<noteq> {} then Inl ValueError
      else
        let ps = join_pairs (index left) (index right)
        in Inr \<lparr>index_name = (if index_name left = index_name right then index_name left else None),
                index = map (\<lambda>(i, j). index left ! i) ps,
                columns = map (\<lambda>(c, vs). (c, map (\<lambda>(i, j). vs ! i) ps)) (columns left)
                          @ map (\<lambda>(c, vs). (c, map (\<lambda>(i, j). vs ! j) ps)) (columns right)\<rparr>)"

text \<open>The merge loop over \<open>tables\<close>, with \<open>merged\<close> as the state.\<close>

fun merge_loop ::
    "'c frame option \<Rightarrow> (string \<times> 'c frame) list \<Rightarrow> py_error + 'c frame option" where
  "merge_loop merged [] = Inr merged"
| "merge_loop None ((name, df) # tables) = merge_loop (Some df) tables"
| "merge_loop (Some merged) ((name, df) # tables) =
     (case join_inner merged (suffix_overlaps merged df name) of
        Inl e \<Rightarrow> Inl e
      | Inr m \<Rightarrow> merge_loop (Some m) tables)"

text \<open>
  The four source files of the run and the dependency file that is copied at
  the end.
\<close>

record inputs =
  expression_csv :: csv_file
  mutation_damaging_csv :: csv_file
  mutation_hotspot_csv :: csv_file
  cnv_csv :: csv_file
  dependency_csv :: csv_file

text \<open>The four loading blocks; each one can end the run with the loader's error.\<close>

definition load_expr ::
    "(string \<Rightarrow> num) \<Rightarrow> csv_file \<Rightarrow> py_error + mcell frame option" where
  "load_expr parse file =
     (case load_omics_table file of
        Inl e \<Rightarrow> Inl e
      | Inr None \<Rightarrow> Inr None
      | Inr (Some df) \<Rightarrow> Inr (Some (map_frame as_mcell (coerce_numeric_frame parse df))))"

definition load_mutation ::
    "(string \<Rightarrow> num) \<Rightarrow> csv_file \<Rightarrow> py_error + mcell frame option" where
  "load_mutation parse file =
     (case load_omics_table file of
        Inl e \<Rightarrow> Inl e
      | Inr None \<Rightarrow> Inr None
      | Inr (Some df) \<Rightarrow>
          Inr (Some (map_frame Int8 (binarize_any_nonzero (coerce_numeric_frame parse df)))))"

definition load_cnv ::
    "(string \<Rightarrow> num) \<Rightarrow> csv_file \<Rightarrow> py_error + mcell frame option" where
  "load_cnv parse file =
     (case load_omics_table file of
        Inl e \<Rightarrow> Inl e
      | Inr None \<Rightarrow> Inr None
      | Inr (Some df) \<Rightarrow>
          Inr (Some (map_frame Int8
                (binarize_cnv_loss (coerce_numeric_frame parse df) CNV_THRESHOLD))))"

text \<open>\<open>if t is not None and t.shape[0] > 0: tables.append((label, t))\<close>\<close>

definition usable :: "string \<Rightarrow> 'c frame option \<Rightarrow> (string \<times> 'c frame) list" where
  "usable label t =
     (case t of None \<Rightarrow> [] | Some df \<Rightarrow> if n_rows df > 0 then [(label, df)] else [])"

text \<open>The list \<open>tables\<close>, or the error of the first loading block that fails.\<close>

definition collect_tables ::
    "(string \<Rightarrow> num) \<Rightarrow> inputs \<Rightarrow> py_error + (string \<times> mcell frame) list" where
  "collect_tables parse files =
     (case load_expr parse (expression_csv files) of Inl e \<Rightarrow> Inl e | Inr expr \<Rightarrow>
      case load_mutation parse (mutation_damaging_csv files) of Inl e \<Rightarrow> Inl e | Inr mut_dmg \<Rightarrow>
      case load_mutation parse (mutation_hotspot_csv files) of Inl e \<Rightarrow> Inl e | Inr mut_hot \<Rightarrow>
      case load_cnv parse (cnv_csv files) of Inl e \<Rightarrow> Inl e | Inr cnv \<Rightarrow>
        Inr (usable ''expr'' expr @ usable ''mut_dmg'' mut_dmg
             @ usable ''mut_hot'' mut_hot @ usable ''cnv'' cnv))"

text \<open>
  From the list \<open>tables\<close> to the merged frame: a RuntimeError when no table is
  usable and when the merged frame has no rows.
\<close>

definition merge_tables :: "(string \<times> 'c frame) list \<Rightarrow> py_error + 'c frame" where
  "merge_tables tables =
     (if tables = [] then Inl RuntimeError
      else case merge_loop None tables of
             Inl e \<Rightarrow> Inl e
           | Inr None \<Rightarrow> Inl RuntimeError
           | Inr (Some merged) \<Rightarrow> if n_rows merged = 0 then Inl RuntimeError else Inr merged)"

text \<open>
  \<open>merged.reset_index().rename(columns={"index": "ModelID"})\<close>: the row labels
  become the first column, under the name of the index; pandas refuses to
  insert a column whose name is taken.  The rename then applies to every column
  called \<open>index\<close>.
\<close>

record out_table =
  id_name :: string
  ids :: "cell list"
  features :: "(string \<times> mcell list) list"

definition reset_index :: "mcell frame \<Rightarrow> py_error + out_table" where
  "reset_index merged =
     (let name = (case index_name merged of None \<Rightarrow> ''index'' | Some n \<Rightarrow> n)
      in if name \<in> set (column_names merged) then Inl ValueError
         else Inr \<lparr>id_name = (if name = ''index'' then ''ModelID'' else name),
                   ids = index merged,
                   features = map (\<lambda>(c, vs). (if c = ''index'' then ''ModelID'' else c, vs))
                                (columns merged)\<rparr>)"

text \<open>What a run leaves in the output directory: file name and content, in writing order.\<close>

datatype artifact = MergedTable out_table | DependencyTable "cell frame"

text \<open>
  The copy of the dependency file at the end of the script, after the merged
  table is on disk: a file that cannot be read ends the run there; otherwise
  \<open>ModelID\<close> becomes the index when it is a column, and the frame is written
  with its index.
\<close>

definition dependency_copy ::
    "csv_file \<Rightarrow> py_error option \<times> (string \<times> artifact) list" where
  "dependency_copy file =
     (case file of
        NoFile \<Rightarrow> (None, [])
      | BadFile \<Rightarrow> (Some ParserError, [])
      | CsvFile deps \<Rightarrow>
          if ''ModelID'' \<in> set (column_names deps)
          then (case set_index ''ModelID'' deps of
                  Inl e \<Rightarrow> (Some e, [])
                | Inr d \<Rightarrow> (None, [(''outputs/dependencies.csv'', DependencyTable d)]))
          else (None, [(''outputs/dependencies.csv'', DependencyTable deps)]))"

text \<open>
  The whole run: the error that ended it, if any, and the files written.  Every
  \<open>raise\<close> of the script comes before its first \<open>to_csv\<close>; the one later step
  that can fail is the reading of the dependency file.
\<close>

definition preprocess ::
    "(string \<Rightarrow> num) \<Rightarrow> inputs \<Rightarrow> py_error option \<times> (string \<times> artifact) list" where
  "preprocess parse files =
     (case collect_tables parse files of Inl e \<Rightarrow> (Some e, []) | Inr tables \<Rightarrow>
      case merge_tables tables of Inl e \<Rightarrow> (Some e, []) | Inr merged \<Rightarrow>
      case reset_index merged of Inl e \<Rightarrow> (Some e, []) | Inr out \<Rightarrow>
        (let written = [(''outputs/merged_biomarkers.csv'', MergedTable out),
                        (''outputs/processed_features.csv'', MergedTable out)];
             (err, copied) = dependency_copy (dependency_csv files)
         in (err, written @ copied)))"

text \<open>
  The model ids of a source frame, as the loader takes them: the column
  \<open>ModelID\<close>, or the row labels when there is no such column.  \<open>source_ids\<close>
  lists the ids of the source files of a run that are read and have at least one
  row, in loading order.
\<close>

definition model_ids :: "cell frame \<Rightarrow> cell list" where
  "model_ids df = (case map_of (columns df) ''ModelID'' of Some labels \<Rightarrow> labels | None \<Rightarrow> index df)"

definition ids_of :: "csv_file \<Rightarrow> cell list list" where
  "ids_of f = (case f of NoFile \<Rightarrow> [] | BadFile \<Rightarrow> []
               | CsvFile df \<Rightarrow> if model_ids df = [] then [] else [model_ids df])"

definition source_ids :: "inputs \<Rightarrow> cell list list" where
  "source_ids files =
     ids_of (expression_csv files) @ ids_of (mutation_damaging_csv files)
       @ ids_of (mutation_hotspot_csv files) @ ids_of (cnv_csv files)"

section \<open>Properties of the Correlation Scorer\<close>

lemma series_max_Max:
  assumes "xs \<noteq> []"
  shows "series_max xs = Max (set xs)"
proof (cases xs)
  case Nil
  with assms show ?thesis by simp
next
  case (Cons a list)
  show ?thesis unfolding Cons series_max.simps Max.set_eq_fold ..
qed

lemma batch_loop_drop:
  "batch_loop n bio_z dep_z i = block_rows (corr_block n (drop i bio_z) dep_z)"
proof (induction n bio_z dep_z i rule: batch_loop.induct)
  case (1 n bio_z dep_z i)
  show ?case
  proof (cases "i < length bio_z")
    case True
    have split: "drop i bio_z = take BATCH (drop i bio_z) @ drop (i + BATCH) bio_z"
      using append_take_drop_id [of BATCH "drop i bio_z"] by (simp add: add.commute)
    have "batch_loop n bio_z dep_z i =
            block_rows (corr_block n (take BATCH (drop i bio_z)) dep_z)
              @ block_rows (corr_block n (drop (i + BATCH) bio_z) dep_z)"
      using True "1.IH" by (subst batch_loop.simps) simp
    also have "\<dots> = block_rows (corr_block n (take BATCH (drop i bio_z) @ drop (i + BATCH) bio_z) dep_z)"
      by (simp add: block_rows_def corr_block_def)
    finally show ?thesis using split by simp
  next
    case False
    then show ?thesis
      by (subst batch_loop.simps) (simp add: block_rows_def corr_block_def)
  qed
qed

lemma rows_out_unbatched:
  "rows_out n bio_z dep_z = block_rows (corr_block n bio_z dep_z)"
  by (simp add: rows_out_def batch_loop_drop)

lemma top_links_score:
  "e \<in> set (top_links b row) \<Longrightarrow> MIN_ABS_CORR \<le> e_score e"
  unfolding top_links_def Let_def e_score_def by (clarsimp split: prod.splits)

lemma rows_out_score:
  "e \<in> set (rows_out n bio_z dep_z) \<Longrightarrow> MIN_ABS_CORR \<le> e_score e"
  unfolding rows_out_unbatched block_rows_def using top_links_score by fastforce

lemma renorm_divisor_pos: "0 < renorm_divisor xs"
  by (simp add: renorm_divisor_def)

lemma group_scores_mem:
  "(b, d, w) \<in> set rows \<Longrightarrow> w \<in> set (group_scores d rows)"
  unfolding group_scores_def e_score_def e_dependency_def by (simp add: image_iff) force

lemma group_scores_lower:
  assumes "\<forall>e \<in> set rows. c \<le> e_score e" "x \<in> set (group_scores d rows)"
  shows "c \<le> x"
  using assms by (auto simp: group_scores_def)

lemma series_max_ge: "x \<in> set xs \<Longrightarrow> x \<le> series_max xs"
  by (cases "xs = []") (simp_all add: series_max_Max)

lemma series_max_mem: "xs \<noteq> [] \<Longrightarrow> series_max xs \<in> set xs"
  by (simp add: series_max_Max)

lemma renormalize_mem:
  assumes "e \<in> set (renormalize rows)"
  obtains b d w where "(b, d, w) \<in> set rows"
    "e = (b, d, w / renorm_divisor (group_scores d rows))"
  using assms unfolding renormalize_def by (auto split: if_splits)

lemma renormalized_in_unit:
  assumes low: "\<forall>e \<in> set rows. MIN_ABS_CORR \<le> e_score e"
    and e: "e \<in> set (renormalize rows)"
  shows "0 < e_score e \<and> e_score e \<le> 1"
proof -
  from e obtain b d w where bdw: "(b, d, w) \<in> set rows"
    and eq: "e = (b, d, w / renorm_divisor (group_scores d rows))"
    by (rule renormalize_mem)
  let ?g = "group_scores d rows"
  have wpos: "0 < w" using low bdw by (force simp: e_score_def MIN_ABS_CORR_def)
  have "w \<in> set ?g" using bdw by (rule group_scores_mem)
  then have "w \<le> series_max ?g" by (rule series_max_ge)
  with wpos have "renorm_divisor ?g = series_max ?g" "0 < series_max ?g"
    by (simp_all add: renorm_divisor_def)
  with wpos \<open>w \<le> series_max ?g\<close> show ?thesis
    by (simp add: eq e_score_def)
qed

lemma rows_out_example:
  "rows_out 2 [(''b'', [1, -1])] [(''d'', [-1, 1])] = [(''b'', ''d'', 1)]"
  by (simp add: rows_out_unbatched block_rows_def corr_block_def corr_row_def dot_def
      top_links_def series_abs_def nlargest_def TOPK_PER_BIOMARKER_def MIN_ABS_CORR_def)


lemma group_scores_nonempty:
  "e \<in> set rows \<Longrightarrow> group_scores (e_dependency e) rows \<noteq> []"
  unfolding group_scores_def by (simp add: filter_empty_conv) blast

lemma sorted_take_le_drop:
  assumes "sorted (map f xs)" "x \<in> set (take k xs)" "y \<in> set (drop k xs)"
  shows "f x \<le> f y"
proof -
  have "sorted (map f (take k xs) @ map f (drop k xs))"
    using assms(1) by (simp flip: map_append)
  then show ?thesis using assms(2,3) by (auto simp: sorted_append)
qed

lemma nlargest_length: "length (nlargest k s) \<le> k"
  by (simp add: nlargest_def)

lemma nlargest_desc: "sorted (map (\<lambda>(d, v). - v) (nlargest k s))"
  unfolding nlargest_def by (simp add: take_map [symmetric] sorted_wrt_take)

lemma nlargest_subset: "set (nlargest k s) \<subseteq> set s"
  unfolding nlargest_def using set_take_subset [of k "sort_key (\<lambda>(d, v). - v) s"] by simp

lemma nlargest_dominates:
  assumes "(d, v) \<in> set s" "(d, v) \<notin> set (nlargest k s)"
  shows "length (nlargest k s) = k \<and> (\<forall>(d', v') \<in> set (nlargest k s). v \<le> v')"
proof -
  let ?srt = "sort_key (\<lambda>(d, v). - v) s"
  have "(d, v) \<in> set (take k ?srt @ drop k ?srt)" using assms(1) by simp
  with assms(2) have dr: "(d, v) \<in> set (drop k ?srt)"
    unfolding nlargest_def by (simp only: set_append Un_iff) blast
  then have "drop k ?srt \<noteq> []" by auto
  then have len: "length (nlargest k s) = k" by (simp add: nlargest_def)
  have "\<forall>(d', v') \<in> set (nlargest k s). v \<le> v'"
  proof (clarify)
    fix d' v' assume "(d', v') \<in> set (nlargest k s)"
    then have "(d', v') \<in> set (take k ?srt)" by (simp add: nlargest_def)
    from sorted_take_le_drop [of "\<lambda>(d, v). - v" ?srt, OF _ this dr]
    show "v \<le> v'" by simp
  qed
  with len show ?thesis by blast
qed

lemma top_links_alt:
  "top_links b row =
     map (\<lambda>(d, v). (b, d, v))
       (filter (\<lambda>(d, v). MIN_ABS_CORR \<le> v) (nlargest TOPK_PER_BIOMARKER (series_abs row)))"
  by (simp add: top_links_def Let_def)

lemma top_links_length: "length (top_links b row) \<le> TOPK_PER_BIOMARKER"
proof -
  have "length (top_links b row) \<le> length (nlargest TOPK_PER_BIOMARKER (series_abs row))"
    unfolding top_links_alt by simp
  also have "\<dots> \<le> TOPK_PER_BIOMARKER" by (rule nlargest_length)
  finally show ?thesis .
qed

lemma top_links_origin:
  assumes "e \<in> set (top_links b row)"
  shows "e_biomarker e = b \<and> MIN_ABS_CORR \<le> e_score e \<and>
         (\<exists>v. (e_dependency e, v) \<in> set row \<and> e_score e = \<bar>v\<bar>)"
proof -
  from assms obtain d a where e: "e = (b, d, a)"
    and top: "(d, a) \<in> set (nlargest TOPK_PER_BIOMARKER (series_abs row))"
    and min: "MIN_ABS_CORR \<le> a"
    unfolding top_links_alt by auto
  from top nlargest_subset have "(d, a) \<in> set (series_abs row)" by blast
  then obtain v where "(d, v) \<in> set row" "a = \<bar>v\<bar>"
    unfolding series_abs_def by auto
  with e min show ?thesis
    by (auto simp: e_biomarker_def e_score_def e_dependency_def)
qed

lemma top_links_desc: "sorted (map (\<lambda>e. - e_score e) (top_links b row))"
proof -
  let ?top = "nlargest TOPK_PER_BIOMARKER (series_abs row)"
  have "map (\<lambda>e. - e_score e) (top_links b row)
          = map (\<lambda>(d, v). - v) (filter (\<lambda>(d, v). MIN_ABS_CORR \<le> v) ?top)"
    unfolding top_links_alt by (simp add: e_score_def case_prod_beta comp_def)
  moreover have "sorted (map (\<lambda>(d, v). - v) (filter (\<lambda>(d, v). MIN_ABS_CORR \<le> v) ?top))"
    using nlargest_desc [of TOPK_PER_BIOMARKER "series_abs row"] by (rule sorted_filter)
  ultimately show ?thesis by simp
qed

lemma top_links_complete:
  assumes row: "(d, v) \<in> set row" and big: "MIN_ABS_CORR \<le> \<bar>v\<bar>"
  shows "(b, d, \<bar>v\<bar>) \<in> set (top_links b row) \<or>
         (length (top_links b row) = TOPK_PER_BIOMARKER \<and>
          (\<forall>e \<in> set (top_links b row). \<bar>v\<bar> \<le> e_score e))"
proof (cases "(d, \<bar>v\<bar>) \<in> set (nlargest TOPK_PER_BIOMARKER (series_abs row))")
  case True
  with big have "(b, d, \<bar>v\<bar>) \<in> set (top_links b row)"
    unfolding top_links_alt by force
  then show ?thesis ..
next
  case False
  let ?top = "nlargest TOPK_PER_BIOMARKER (series_abs row)"
  have "(d, \<bar>v\<bar>) \<in> set (series_abs row)"
    using row unfolding series_abs_def by force
  from nlargest_dominates [OF this False]
  have len: "length ?top = TOPK_PER_BIOMARKER"
    and dom: "\<forall>(d', v') \<in> set ?top. \<bar>v\<bar> \<le> v'" by blast+
  from dom big have "\<forall>p \<in> set ?top. (\<lambda>(d, v). MIN_ABS_CORR \<le> v) p" by fastforce
  then have keep: "filter (\<lambda>(d, v). MIN_ABS_CORR \<le> v) ?top = ?top"
    by (simp only: filter_True)
  have "length (top_links b row) = TOPK_PER_BIOMARKER"
    unfolding top_links_alt keep using len by simp
  moreover have "\<forall>e \<in> set (top_links b row). \<bar>v\<bar> \<le> e_score e"
    unfolding top_links_alt keep using dom by (auto simp: e_score_def)
  ultimately show ?thesis by blast
qed

section \<open>Properties of the float64 operations\<close>

lemma asc_key_inj: "asc_key a = asc_key b \<Longrightarrow> a = b"
  by (cases a; cases b) auto

lemma f_le_refl: "a \<noteq> NaN \<Longrightarrow> f_le a a"
  by (simp add: f_le_def)

lemma f_le_antisym: "f_le a b \<Longrightarrow> f_le b a \<Longrightarrow> a = b"
  unfolding f_le_def by (auto intro: asc_key_inj)

lemma f_less_le: "f_less a b \<longleftrightarrow> f_le a b \<and> a \<noteq> b"
  unfolding f_less_def f_le_def using asc_key_inj [of a b] by (auto simp: less_le)

lemma not_f_less: "a \<noteq> NaN \<Longrightarrow> b \<noteq> NaN \<Longrightarrow> \<not> f_less a b \<Longrightarrow> f_le b a"
  unfolding f_less_def f_le_def by auto

lemma f_le_trans: "f_le a b \<Longrightarrow> f_le b c \<Longrightarrow> f_le a c"
  unfolding f_le_def by auto

lemma desc_key_le: "a \<noteq> NaN \<Longrightarrow> b \<noteq> NaN \<Longrightarrow> desc_key a \<le> desc_key b \<longleftrightarrow> f_le b a"
  by (cases a; cases b) (auto simp: f_le_def less_eq_prod_def)

lemma f_le_Finite [simp]: "f_le (Finite x) (Finite y) \<longleftrightarrow> x \<le> y"
  by (simp add: f_le_def less_eq_prod_def)

lemma f_less_Finite [simp]: "f_less (Finite x) (Finite y) \<longleftrightarrow> x < y"
  by (simp add: f_less_def less_prod_def)

lemma f_less_zero_cases:
  "f_less (Finite 0) w \<longleftrightarrow> w = PlusInf \<or> (\<exists>x. w = Finite x \<and> 0 < x)"
  by (cases w) (auto simp: f_less_def less_prod_def)

lemma fold_max_step:
  assumes "y \<noteq> NaN" "NaN \<notin> set ys"
  shows "fold (\<lambda>x m. if f_less m x then x else m) ys y \<in> set (y # ys) \<and>
         (\<forall>x \<in> set (y # ys). f_le x (fold (\<lambda>x m. if f_less m x then x else m) ys y))"
  using assms
proof (induction ys arbitrary: y)
  case Nil
  then show ?case by (simp add: f_le_refl)
next
  case (Cons a ys)
  let ?y' = "if f_less y a then a else y"
  from Cons.prems have a: "a \<noteq> NaN" and ys: "NaN \<notin> set ys" by auto
  have y': "?y' \<noteq> NaN" using Cons.prems(1) a by simp
  from Cons.IH [OF y' ys]
  have mem: "fold (\<lambda>x m. if f_less m x then x else m) ys ?y' \<in> set (?y' # ys)"
    and ub: "\<forall>x \<in> set (?y' # ys). f_le x (fold (\<lambda>x m. if f_less m x then x else m) ys ?y')"
    by blast+
  have "f_le y ?y'" "f_le a ?y'"
    using Cons.prems(1) a by (auto simp: f_less_le f_le_refl intro: not_f_less)
  with ub have "f_le y (fold (\<lambda>x m. if f_less m x then x else m) ys ?y')"
    "f_le a (fold (\<lambda>x m. if f_less m x then x else m) ys ?y')"
    by (auto intro: f_le_trans)
  with mem ub show ?case by auto
qed

lemma f_max_greatest:
  assumes "xs \<noteq> []" "NaN \<notin> set xs"
  shows "f_max xs \<in> set xs" "\<forall>x \<in> set xs. f_le x (f_max xs)"
proof -
  from assms obtain y ys where xs: "xs = y # ys" by (cases xs) auto
  with assms(2) have flt: "filter (\<lambda>x. x \<noteq> NaN) xs = y # ys"
    by (auto simp: filter_id_conv)
  have m: "f_max xs = fold (\<lambda>x m. if f_less m x then x else m) ys y"
    by (simp only: f_max_def flt list.case)
  from xs assms(2) have "y \<noteq> NaN" "NaN \<notin> set ys" by auto
  from fold_max_step [OF this]
  have "f_max xs \<in> set (y # ys) \<and> (\<forall>x \<in> set (y # ys). f_le x (f_max xs))"
    unfolding m .
  then show "f_max xs \<in> set xs" "\<forall>x \<in> set xs. f_le x (f_max xs)"
    unfolding xs by blast+
qed

lemma f_max_eqI:
  assumes "NaN \<notin> set xs" "m \<in> set xs" "\<forall>x \<in> set xs. f_le x m"
  shows "f_max xs = m"
proof -
  from assms(2) have ne: "xs \<noteq> []" by auto
  from f_max_greatest [OF ne assms(1)] assms show ?thesis
    by (auto intro: f_le_antisym)
qed

section \<open>Properties of the Edge Sparsifier\<close>

lemma insort_key_cong_order:
  "\<forall>y \<in> set zs. (f a \<le> f y) = (g a \<le> g y) \<Longrightarrow> insort_key f a zs = insort_key g a zs"
  by (induction zs) auto

lemma sort_key_cong_order:
  "\<forall>x \<in> set ys. \<forall>y \<in> set ys. (f x \<le> f y) = (g x \<le> g y) \<Longrightarrow> sort_key f ys = sort_key g ys"
proof (induction ys)
  case Nil
  then show ?case by simp
next
  case (Cons a ys)
  then have IH: "sort_key f ys = sort_key g ys" by auto
  have "insort_key f a (sort_key g ys) = insort_key g a (sort_key g ys)"
    using Cons.prems by (intro insort_key_cong_order) auto
  with IH show ?case by simp
qed

lemma sort_key_group:
  "filter (\<lambda>r. name r = d) (sort_key (\<lambda>r. (name r, k r)) xs)
     = sort_key k (filter (\<lambda>r. name r = d) xs)"
    for name :: "'r \<Rightarrow> string" and k :: "'r \<Rightarrow> nat \<times> real"
proof -
  have "filter (\<lambda>r. name r = d) (sort_key (\<lambda>r. (name r, k r)) xs)
      = sort_key (\<lambda>r. (name r, k r)) (filter (\<lambda>r. name r = d) xs)"
    by (rule filter_sort)
  also have "\<dots> = sort_key k (filter (\<lambda>r. name r = d) xs)"
    by (rule sort_key_cong_order) (auto simp: less_eq_prod_def)
  finally show ?thesis .
qed

lemma group_head_filter:
  "filter (\<lambda>y. key y = k) (group_head key n seen xs)
     = take (n - length (filter (\<lambda>y. key y = k) seen)) (filter (\<lambda>y. key y = k) xs)"
proof (induction xs arbitrary: seen)
  case Nil
  then show ?case by simp
next
  case (Cons x xs)
  show ?case
  proof (cases "key x = k")
    case True
    show ?thesis
    proof (cases "length (filter (\<lambda>y. key y = k) seen) < n")
      case less: True
      then obtain m where m: "n - length (filter (\<lambda>y. key y = k) seen) = Suc m"
        by (metis Suc_diff_Suc)
      then have "n - Suc (length (filter (\<lambda>y. key y = k) seen)) = m" by simp
      with True less m show ?thesis by (simp add: Cons.IH)
    next
      case False
      with True show ?thesis by (simp add: Cons.IH)
    qed
  next
    case False
    then show ?thesis by (simp add: Cons.IH)
  qed
qed

lemma groupby_head_filter:
  "filter (\<lambda>y. key y = k) (groupby_head key n df) = take n (filter (\<lambda>y. key y = k) df)"
  by (simp add: groupby_head_def group_head_filter)

lemma group_head_filter_length:
  "length (filter P (group_head key n seen xs)) \<le> length (filter P xs)"
  by (induction xs arbitrary: seen) (auto simp: le_SucI)

lemma group_head_subset: "set (group_head key n seen xs) \<subseteq> set xs"
  by (induction xs arbitrary: seen) auto

lemma group_head_sorted:
  "sorted (map f xs) \<Longrightarrow> sorted (map f (group_head key n seen xs))"
proof (induction xs arbitrary: seen)
  case Nil
  then show ?case by simp
next
  case (Cons x xs)
  then have tl: "sorted (map f (group_head key n (x # seen) xs))"
    and le: "\<forall>y \<in> set xs. f x \<le> f y" by auto
  from le group_head_subset [of key n "x # seen" xs]
  have "\<forall>y \<in> set (group_head key n (x # seen) xs). f x \<le> f y" by blast
  with tl show ?case by auto
qed

lemma groupby_head_count: "length (filter (\<lambda>y. key y = k) (groupby_head key n df)) \<le> n"
  by (simp add: groupby_head_filter)

lemma topk_per_dependency_group:
  "filter (\<lambda>r. row_dependency r = d) (topk_per_dependency df)
     = take TOPK_PER_DEP
         (sort_key (\<lambda>r. desc_key (row_score r)) (filter (\<lambda>r. row_dependency r = d) df))"
  unfolding topk_per_dependency_def groupby_head_filter by (simp only: sort_key_group)

lemma topk_per_biomarker_group:
  "filter (\<lambda>r. row_biomarker r = b) (topk_per_biomarker df)
     = take TOPK_PER_BM
         (sort_key (\<lambda>r. desc_key (row_score r)) (filter (\<lambda>r. row_biomarker r = b) df))"
  unfolding topk_per_biomarker_def groupby_head_filter by (simp only: sort_key_group)

lemma topk_per_dependency_sorted:
  "sorted (map (\<lambda>r. (row_dependency r, desc_key (row_score r))) (topk_per_dependency df))"
  unfolding topk_per_dependency_def groupby_head_def
  by (rule group_head_sorted) (rule sorted_sort_key)

lemma topk_per_biomarker_sorted:
  "sorted (map (\<lambda>r. (row_biomarker r, desc_key (row_score r))) (topk_per_biomarker df))"
  unfolding topk_per_biomarker_def groupby_head_def
  by (rule group_head_sorted) (rule sorted_sort_key)

lemma topk_per_biomarker_count:
  "length (filter (\<lambda>r. row_biomarker r = b) (topk_per_biomarker df)) \<le> TOPK_PER_BM"
  unfolding topk_per_biomarker_def by (rule groupby_head_count)

lemma topk_per_dependency_count:
  "length (filter (\<lambda>r. row_dependency r = d) (topk_per_dependency df)) \<le> TOPK_PER_DEP"
  unfolding topk_per_dependency_def by (rule groupby_head_count)

lemma topk_per_biomarker_shrinks:
  "length (filter P (topk_per_biomarker df)) \<le> length (filter P df)"
proof -
  let ?s = "sort_key (\<lambda>r. (row_biomarker r, desc_key (row_score r))) df"
  have "length (filter P (topk_per_biomarker df)) \<le> length (filter P ?s)"
    unfolding topk_per_biomarker_def groupby_head_def by (rule group_head_filter_length)
  also have "\<dots> = length (filter P df)"
    by (simp add: filter_sort)
  finally show ?thesis .
qed

lemma topk_per_biomarker_subset: "set (topk_per_biomarker df) \<subseteq> set df"
  unfolding topk_per_biomarker_def groupby_head_def
  using group_head_subset [of row_biomarker TOPK_PER_BM "[]"] by fastforce

lemma topk_per_dependency_subset: "set (topk_per_dependency df) \<subseteq> set df"
  unfolding topk_per_dependency_def groupby_head_def
  using group_head_subset [of row_dependency TOPK_PER_DEP "[]"] by fastforce

text \<open>The scores that reach the normalisation, and what the division makes of them.\<close>

lemma keep_positive_score:
  "r \<in> set (keep_positive df) \<Longrightarrow>
     row_score r = PlusInf \<or> (\<exists>x. row_score r = Finite x \<and> 0 < x)"
  by (simp add: keep_positive_def f_less_zero_cases)

lemma filtered_features_score:
  "r \<in> set (filtered_features features_df dep_names) \<Longrightarrow>
     row_score r = PlusInf \<or> (\<exists>x. row_score r = Finite x \<and> 0 < x)"
  unfolding filtered_features_def by (rule keep_positive_score)

lemma group_values_mem:
  "r \<in> set df \<Longrightarrow> row_score r \<in> set (group_values (row_dependency r) df)"
  by (simp add: group_values_def)

lemma group_values_row:
  assumes "w \<in> set (group_values d df)"
  obtains b where "(b, d, w) \<in> set df"
  using assms unfolding group_values_def row_score_def row_dependency_def by force

lemma group_values_score:
  assumes "w \<in> set (group_values d df)"
  obtains r where "r \<in> set df" "row_score r = w" "row_dependency r = d"
  using assms unfolding group_values_def by auto

lemma normalize_alt:
  "normalize_per_dependency df =
     map (\<lambda>r. (row_biomarker r, row_dependency r,
                f_div (row_score r) (f_max (group_values (row_dependency r) df)))) df"
  by (simp add: normalize_per_dependency_def row_biomarker_def row_dependency_def row_score_def
      split_def)

lemma f_div_positive_abs:
  assumes "w = PlusInf \<or> (\<exists>x. w = Finite x \<and> 0 < x)"
    and "m = PlusInf \<or> (\<exists>x. m = Finite x \<and> 0 < x)"
  shows "f_abs (f_div w m) = f_div w m"
  using assms by auto

lemma positive_group_max:
  assumes pos: "\<forall>r \<in> set df. row_score r = PlusInf \<or> (\<exists>x. row_score r = Finite x \<and> 0 < x)"
    and r: "r \<in> set df"
  shows "f_max (group_values (row_dependency r) df) = PlusInf \<or>
         (\<exists>x. f_max (group_values (row_dependency r) df) = Finite x \<and> 0 < x)"
proof -
  let ?g = "group_values (row_dependency r) df"
  have ne: "?g \<noteq> []" using group_values_mem [OF r] by auto
  have all: "\<forall>w \<in> set ?g. w = PlusInf \<or> (\<exists>x. w = Finite x \<and> 0 < x)"
    using pos by (auto elim!: group_values_score)
  then have "NaN \<notin> set ?g" by auto
  from f_max_greatest(1) [OF ne this] all show ?thesis by blast
qed

lemma normalized_abs:
  assumes pos: "\<forall>r \<in> set df. row_score r = PlusInf \<or> (\<exists>x. row_score r = Finite x \<and> 0 < x)"
    and n: "n \<in> set (normalize_per_dependency df)"
  shows "f_abs (row_score n) = row_score n"
proof -
  from n obtain r where r: "r \<in> set df"
    and eq: "n = (row_biomarker r, row_dependency r,
                f_div (row_score r) (f_max (group_values (row_dependency r) df)))"
    unfolding normalize_alt by auto
  from pos r have "row_score r = PlusInf \<or> (\<exists>x. row_score r = Finite x \<and> 0 < x)" by blast
  moreover note positive_group_max [OF pos r]
  ultimately have "f_abs (f_div (row_score r) (f_max (group_values (row_dependency r) df)))
      = f_div (row_score r) (f_max (group_values (row_dependency r) df))"
    by (rule f_div_positive_abs)
  then show ?thesis by (simp add: eq row_score_def)
qed

lemma sort_key_const: "\<forall>x \<in> set xs. f x = c \<Longrightarrow> sort_key f xs = xs"
proof (induction xs)
  case Nil
  then show ?case by simp
next
  case (Cons a xs)
  then have "sort_key f xs = xs" by simp
  moreover have "insort_key f a xs = a # xs"
    using Cons.prems by (cases xs) auto
  ultimately show ?case by simp
qed

lemma insort_key_last: "\<forall>y \<in> set ys. f y < f a \<Longrightarrow> insort_key f a ys = ys @ [a]"
  by (induction ys) auto

lemma group_head_keeps_all:
  "\<forall>k. length (filter (\<lambda>y. key y = k) seen) + length (filter (\<lambda>y. key y = k) xs) \<le> n
     \<Longrightarrow> group_head key n seen xs = xs"
proof (induction xs arbitrary: seen)
  case Nil
  then show ?case by simp
next
  case (Cons x xs)
  from Cons.prems have "length (filter (\<lambda>y. key y = key x) seen)
      + length (filter (\<lambda>y. key y = key x) (x # xs)) \<le> n" by blast
  then have lt: "length (filter (\<lambda>y. key y = key x) seen) < n" by simp
  have "\<forall>k. length (filter (\<lambda>y. key y = k) (x # seen)) + length (filter (\<lambda>y. key y = k) xs) \<le> n"
  proof
    fix k
    from Cons.prems have "length (filter (\<lambda>y. key y = k) seen)
      + length (filter (\<lambda>y. key y = k) (x # xs)) \<le> n" by blast
    then show "length (filter (\<lambda>y. key y = k) (x # seen)) + length (filter (\<lambda>y. key y = k) xs) \<le> n"
      by (cases "key x = k") simp_all
  qed
  then have "group_head key n (x # seen) xs = xs" by (rule Cons.IH)
  with lt show ?case by simp
qed

lemma distinct_key_count:
  "distinct (map key xs) \<Longrightarrow> length (filter (\<lambda>y. key y = k) xs) \<le> 1"
proof (induction xs)
  case Nil
  then show ?case by simp
next
  case (Cons a xs)
  show ?case
  proof (cases "key a = k")
    case True
    with Cons.prems have "k \<notin> key ` set xs" by auto
    then have "filter (\<lambda>y. key y = k) xs = []" by (auto simp: filter_empty_conv)
    with True show ?thesis by simp
  next
    case False
    with Cons show ?thesis by simp
  qed
qed

lemma replicate_names_distinct: "distinct (map (\<lambda>i. replicate (Suc i) c) [0..<n])"
proof -
  have "inj_on (\<lambda>i. replicate (Suc i) c) (set [0..<n])"
    by (rule inj_onI) (metis length_replicate nat.inject)
  then show ?thesis by (simp add: distinct_map)
qed

lemma normalize_group_values:
  "group_values d (normalize_per_dependency df)
     = map (\<lambda>w. f_div w (f_max (group_values d df))) (group_values d df)"
proof -
  have "group_values d (normalize_per_dependency df)
      = map (\<lambda>r. f_div (row_score r) (f_max (group_values (row_dependency r) df)))
          (filter (\<lambda>r. row_dependency r = d) df)"
    unfolding normalize_alt group_values_def
    by (simp add: filter_map comp_def row_dependency_def row_score_def)
  also have "\<dots> = map (\<lambda>r. f_div (row_score r) (f_max (group_values d df)))
          (filter (\<lambda>r. row_dependency r = d) df)"
    by (rule map_cong) auto
  finally show ?thesis by (simp add: group_values_def comp_def)
qed

lemma sorted_hd_least:
  assumes "sorted (map f xs)" "x \<in> set xs"
  shows "f (hd xs) \<le> f x"
  using assms by (cases xs) auto

lemma groupby_head_keeps_first:
  assumes "0 < n" "filter (\<lambda>y. key y = k) df \<noteq> []"
  shows "hd (filter (\<lambda>y. key y = k) df) \<in> set (groupby_head key n df)"
proof -
  let ?f = "filter (\<lambda>y. key y = k) df"
  from assms obtain m where "n = Suc m" by (cases n) auto
  with assms(2) have "hd ?f \<in> set (take n ?f)" by (cases ?f) auto
  then have "hd ?f \<in> set (filter (\<lambda>y. key y = k) (groupby_head key n df))"
    by (simp only: groupby_head_filter)
  then show ?thesis by simp
qed

lemma finite_group_max:
  assumes fin: "\<forall>r \<in> set df. \<exists>x. row_score r = Finite x \<and> 0 < x"
    and e: "e \<in> set df"
  obtains m where "f_max (group_values (row_dependency e) df) = Finite m" "0 < m"
    "\<forall>r \<in> set df. row_dependency r = row_dependency e \<longrightarrow>
        (\<exists>x. row_score r = Finite x \<and> 0 < x \<and> x \<le> m)"
    "\<exists>b. (b, row_dependency e, Finite m) \<in> set df"
proof -
  let ?d = "row_dependency e"
  let ?g = "group_values ?d df"
  have ne: "?g \<noteq> []" using group_values_mem [OF e] by auto
  have all: "\<forall>w \<in> set ?g. \<exists>x. w = Finite x \<and> 0 < x"
    using fin by (auto elim!: group_values_score)
  then have nonan: "NaN \<notin> set ?g" by auto
  from f_max_greatest [OF ne nonan]
  have mem: "f_max ?g \<in> set ?g" and ub: "\<forall>w \<in> set ?g. f_le w (f_max ?g)" by blast+
  from mem all obtain m where m: "f_max ?g = Finite m" "0 < m" by blast
  have bound: "\<forall>r \<in> set df. row_dependency r = ?d \<longrightarrow>
        (\<exists>x. row_score r = Finite x \<and> 0 < x \<and> x \<le> m)"
  proof (intro ballI impI)
    fix r assume r: "r \<in> set df" "row_dependency r = ?d"
    with fin obtain x where x: "row_score r = Finite x" "0 < x" by blast
    from r have "row_score r \<in> set ?g" using group_values_mem [of r df] by simp
    with ub have "f_le (row_score r) (Finite m)" unfolding m(1) by blast
    with x show "\<exists>x. row_score r = Finite x \<and> 0 < x \<and> x \<le> m" by simp
  qed
  from mem obtain b where "(b, ?d, f_max ?g) \<in> set df" by (rule group_values_row)
  then have "\<exists>b. (b, ?d, Finite m) \<in> set df" unfolding m(1) ..
  with m bound show ?thesis by (rule that)
qed

lemma finite_normalized_max_survives:
  assumes fin: "\<forall>r \<in> set df. \<exists>x. row_score r = Finite x \<and> 0 < x"
    and e: "e \<in> set df"
  shows "\<exists>m b. f_max (group_values (row_dependency e) df) = Finite m \<and> 0 < m \<and>
           f_max (group_values (row_dependency e) (normalize_per_dependency df)) = Finite 1 \<and>
           (b, row_dependency e, Finite m) \<in> set df \<and>
           (b, row_dependency e, Finite 1)
             \<in> set (topk_per_dependency (drop_small (normalize_per_dependency df)))"
proof -
  define d where "d = row_dependency e"
  from fin e obtain m where m: "f_max (group_values d df) = Finite m" "0 < m"
    and bound: "\<forall>r \<in> set df. row_dependency r = d \<longrightarrow>
        (\<exists>x. row_score r = Finite x \<and> 0 < x \<and> x \<le> m)"
    and top: "\<exists>b. (b, d, Finite m) \<in> set df"
    unfolding d_def by (rule finite_group_max)
  define N where "N = normalize_per_dependency df"
  have N_rows: "\<exists>b x. n = (b, d, Finite (x / m)) \<and> row_score n = Finite (x / m) \<and>
      (b, d, Finite x) \<in> set df \<and> 0 < x \<and> x \<le> m"
    if "n \<in> set N" "row_dependency n = d" for n
  proof -
    from that(1) obtain r where r: "r \<in> set df"
      and eq: "n = (row_biomarker r, row_dependency r,
                f_div (row_score r) (f_max (group_values (row_dependency r) df)))"
      unfolding N_def normalize_alt by auto
    from that(2) eq have rd: "row_dependency r = d" by (simp add: row_dependency_def)
    with bound r obtain x where x: "row_score r = Finite x" "0 < x" "x \<le> m" by blast
    have "r = (row_biomarker r, d, Finite x)"
      using rd x(1) by (simp add: row_biomarker_def row_dependency_def row_score_def prod_eq_iff)
    with r have "(row_biomarker r, d, Finite x) \<in> set df" by simp
    moreover have "n = (row_biomarker r, d, Finite (x / m))"
      using eq rd x m by simp
    ultimately show ?thesis using x by (auto simp: row_score_def)
  qed
  from top obtain b0 where b0: "(b0, d, Finite m) \<in> set df" ..
  have one_in: "(b0, d, Finite 1) \<in> set N"
  proof -
    have "(row_biomarker (b0, d, Finite m), row_dependency (b0, d, Finite m),
           f_div (row_score (b0, d, Finite m))
             (f_max (group_values (row_dependency (b0, d, Finite m)) df))) \<in> set N"
      unfolding N_def normalize_alt set_map using b0 by (rule imageI)
    then show ?thesis using m
      by (simp add: row_biomarker_def row_dependency_def row_score_def)
  qed
  have gmax: "f_max (group_values d N) = Finite 1"
  proof (rule f_max_eqI)
    show "NaN \<notin> set (group_values d N)"
    proof
      assume "NaN \<in> set (group_values d N)"
      then obtain n where "n \<in> set N" "row_dependency n = d" "row_score n = NaN"
        by (auto simp: group_values_def)
      with N_rows [of n] show False by auto
    qed
    show "Finite 1 \<in> set (group_values d N)"
      using one_in by (force simp: group_values_def row_score_def row_dependency_def)
    show "\<forall>x \<in> set (group_values d N). f_le x (Finite 1)"
    proof
      fix w assume "w \<in> set (group_values d N)"
      then obtain n where "n \<in> set N" "row_dependency n = d" "row_score n = w"
        by (auto simp: group_values_def)
      with N_rows [of n] m(2) show "f_le w (Finite 1)"
        by auto
    qed
  qed
  define Y where "Y = drop_small N"
  define S where "S = sort_key (\<lambda>r. (row_dependency r, desc_key (row_score r))) Y"
  define F where "F = filter (\<lambda>r. row_dependency r = d) S"
  have inY: "(b0, d, Finite 1) \<in> set Y"
    using one_in by (simp add: Y_def drop_small_def row_score_def EDGE_MIN_def)
  then have inF: "(b0, d, Finite 1) \<in> set F"
    by (simp add: F_def S_def row_dependency_def)
  have ne: "F \<noteq> []"
  proof
    assume "F = []"
    with inF show False by (simp only: list.set empty_iff)
  qed
  have srt: "sorted (map (\<lambda>r. (row_dependency r, desc_key (row_score r))) F)"
    unfolding F_def S_def by (intro sorted_filter sorted_sort_key)
  have hdF: "hd F \<in> set F" using ne by (rule hd_in_set)
  then have hd_dep: "row_dependency (hd F) = d" by (simp add: F_def)
  from hdF have "hd F \<in> set N" by (simp add: F_def S_def Y_def drop_small_def)
  from N_rows [OF this hd_dep] obtain b x
    where hd_eq: "hd F = (b, d, Finite (x / m))" and src: "(b, d, Finite x) \<in> set df"
      and x: "0 < x" "x \<le> m" by blast
  have "(row_dependency (hd F), desc_key (row_score (hd F)))
          \<le> (row_dependency (b0, d, Finite 1), desc_key (row_score (b0, d, Finite 1)))"
    using srt inF by (rule sorted_hd_least)
  then have "(d, (1::nat, - (x / m))) \<le> (d, (1, - 1))"
    by (simp add: hd_eq row_dependency_def row_score_def)
  then have "1 \<le> x / m" by (simp add: less_eq_prod_def)
  with x m(2) have "x = m" by (simp add: field_simps)
  with hd_eq src m(2) have hd1: "hd F = (b, d, Finite 1)" and srcm: "(b, d, Finite m) \<in> set df"
    by simp_all
  have fne: "filter (\<lambda>r. row_dependency r = d) S \<noteq> []"
    using ne unfolding F_def .
  have "0 < TOPK_PER_DEP" by (simp add: TOPK_PER_DEP_def)
  then have "hd (filter (\<lambda>r. row_dependency r = d) S)
               \<in> set (groupby_head row_dependency TOPK_PER_DEP S)"
    using fne by (rule groupby_head_keeps_first)
  then have kept: "hd F \<in> set (topk_per_dependency Y)"
    by (simp only: topk_per_dependency_def F_def S_def)
  with hd1 have "(b, d, Finite 1) \<in> set (topk_per_dependency (drop_small N))"
    by (simp add: Y_def)
  with m gmax srcm show ?thesis unfolding d_def N_def by blast
qed

lemma infinite_score_example:
  "filtered_features [(''b1'', ''d'', PlusInf), (''b2'', ''d'', Finite 0.5)] [''d'']
     = [(''b1'', ''d'', PlusInf), (''b2'', ''d'', Finite 0.5)]
   \<and> f_max (group_values ''d'' [(''b1'', ''d'', PlusInf), (''b2'', ''d'', Finite 0.5)]) = PlusInf
   \<and> normalize_per_dependency [(''b1'', ''d'', PlusInf), (''b2'', ''d'', Finite 0.5)]
     = [(''b1'', ''d'', NaN), (''b2'', ''d'', Finite 0)]
   \<and> f_max (group_values ''d'' [(''b1'', ''d'', NaN), (''b2'', ''d'', Finite 0)]) = Finite 0
   \<and> drop_small [(''b1'', ''d'', NaN), (''b2'', ''d'', Finite 0)] = []"
  by (simp add: filtered_features_def keep_listed_def keep_positive_def
      normalize_per_dependency_def group_values_def f_max_def row_score_def row_dependency_def
      drop_small_def EDGE_MIN_def f_less_def f_le_def less_eq_prod_def less_prod_def)

text \<open>Distinct values, and the partners of a node in an edge list.\<close>

lemma unique_from_set: "set (unique_from seen xs) = set xs - set seen"
  by (induction seen xs rule: unique_from.induct) auto

lemma unique_set: "set (unique xs) = set xs"
  by (simp add: unique_def unique_from_set)

lemma partner_count: "card (f ` set (filter P xs)) \<le> length (filter P xs)"
  by (rule order_trans [OF card_image_le card_length]) simp

section \<open>Properties of the Graph Builder and the Community Partitioner\<close>

lemma add_nodes_from_node:
  "g_node (add_nodes_from ns c g) n = (if n \<in> set ns then Some (Some c) else g_node g n)"
  unfolding add_nodes_from_def by (induction ns arbitrary: g) auto

lemma add_nodes_from_adj: "g_adj (add_nodes_from ns c g) = g_adj g"
  unfolding add_nodes_from_def by (induction ns arbitrary: g) auto

lemma add_edge_keeps_node:
  "g_node g n = Some a \<Longrightarrow> g_node (add_edge u v w g) n = Some a"
  by (auto simp: add_edge_def ensure_node_def split: option.splits)

lemma add_edge_adj:
  "g_adj (add_edge u v w g) x y = Some z \<Longrightarrow>
     g_adj g x y = Some z \<or> (x = u \<and> y = v) \<or> (x = v \<and> y = u)"
  by (auto simp: add_edge_def Let_def split: if_splits)

lemma build_edges_cross_only:
  assumes "\<forall>x y z. g_adj g x y = Some z \<longrightarrow>
             (x \<in> set biomarkers \<and> y \<in> valid_deps) \<or> (y \<in> set biomarkers \<and> x \<in> valid_deps)"
  shows "\<forall>x y z. g_adj (build_edges biomarkers valid_deps df g) x y = Some z \<longrightarrow>
             (x \<in> set biomarkers \<and> y \<in> valid_deps) \<or> (y \<in> set biomarkers \<and> x \<in> valid_deps)"
  using assms
proof (induction df arbitrary: g)
  case Nil
  then show ?case by (simp add: build_edges_def)
next
  case (Cons r df)
  obtain b d w where r: "r = (b, d, w)" by (cases r)
  let ?g = "if b \<in> set biomarkers \<and> d \<in> valid_deps then add_edge b d w g else g"
  have "\<forall>x y z. g_adj ?g x y = Some z \<longrightarrow>
             (x \<in> set biomarkers \<and> y \<in> valid_deps) \<or> (y \<in> set biomarkers \<and> x \<in> valid_deps)"
    using Cons.prems by (auto dest!: add_edge_adj)
  from Cons.IH [OF this] show ?case
    by (simp add: build_edges_def r)
qed

lemma build_edges_keeps_node:
  "g_node g n = Some a \<Longrightarrow> g_node (build_edges biomarkers valid_deps df g) n = Some a"
proof (induction df arbitrary: g)
  case Nil
  then show ?case by (simp add: build_edges_def)
next
  case (Cons r df)
  obtain b d w where r: "r = (b, d, w)" by (cases r)
  let ?g = "if b \<in> set biomarkers \<and> d \<in> valid_deps then add_edge b d w g else g"
  have "g_node ?g n = Some a" using Cons.prems by (simp add: add_edge_keeps_node)
  from Cons.IH [OF this] show ?case
    by (simp add: build_edges_def r)
qed

lemma network_build_alt:
  "network_build features_df dep_names =
     build_edges (biomarkers_of features_df dep_names) (set dep_names)
       (sparsified_features features_df dep_names)
       (add_nodes_from (sorted_list_of_set (set dep_names)) Dependency
          (add_nodes_from (biomarkers_of features_df dep_names) Biomarker empty_graph))"
  by (simp add: network_build_def Let_def)

lemma network_build_cross:
  assumes "g_adj (network_build features_df dep_names) u v = Some w"
  shows "(u \<in> set (biomarkers_of features_df dep_names) \<and> v \<in> set dep_names) \<or>
         (v \<in> set (biomarkers_of features_df dep_names) \<and> u \<in> set dep_names)"
proof -
  let ?B = "add_nodes_from (sorted_list_of_set (set dep_names)) Dependency
          (add_nodes_from (biomarkers_of features_df dep_names) Biomarker empty_graph)"
  have "\<forall>x y z. g_adj ?B x y = Some z \<longrightarrow>
      (x \<in> set (biomarkers_of features_df dep_names) \<and> y \<in> set dep_names) \<or>
      (y \<in> set (biomarkers_of features_df dep_names) \<and> x \<in> set dep_names)"
    by (simp add: add_nodes_from_adj empty_graph_def)
  then have "\<forall>x y z. g_adj (network_build features_df dep_names) x y = Some z \<longrightarrow>
      (x \<in> set (biomarkers_of features_df dep_names) \<and> y \<in> set dep_names) \<or>
      (y \<in> set (biomarkers_of features_df dep_names) \<and> x \<in> set dep_names)"
    unfolding network_build_alt by (rule build_edges_cross_only)
  with assms show ?thesis by blast
qed

lemma network_build_class:
  "n \<in> set dep_names \<Longrightarrow>
     g_node (network_build features_df dep_names) n = Some (Some Dependency)"
  "n \<in> set (biomarkers_of features_df dep_names) \<Longrightarrow> n \<notin> set dep_names \<Longrightarrow>
     g_node (network_build features_df dep_names) n = Some (Some Biomarker)"
  unfolding network_build_alt
  by (rule build_edges_keeps_node, simp add: add_nodes_from_node)+


lemma graph_edges_cross_classes:
  "g_adj (network_build features_df dep_names) u v = Some w \<longrightarrow>
     ((u \<in> set (biomarkers_of features_df dep_names) \<and> v \<in> set dep_names) \<or>
      (v \<in> set (biomarkers_of features_df dep_names) \<and> u \<in> set dep_names)) \<and>
     (set (biomarkers_of features_df dep_names) \<inter> set dep_names = {} \<longrightarrow>
        u \<noteq> v \<and>
        g_node (network_build features_df dep_names) u
          \<noteq> g_node (network_build features_df dep_names) v \<and>
        {g_node (network_build features_df dep_names) u,
         g_node (network_build features_df dep_names) v}
          = {Some (Some Biomarker), Some (Some Dependency)})"
proof (intro impI conjI)
  assume e: "g_adj (network_build features_df dep_names) u v = Some w"
  then show cross: "(u \<in> set (biomarkers_of features_df dep_names) \<and> v \<in> set dep_names) \<or>
      (v \<in> set (biomarkers_of features_df dep_names) \<and> u \<in> set dep_names)"
    by (rule network_build_cross)
  assume dis: "set (biomarkers_of features_df dep_names) \<inter> set dep_names = {}"
  from cross show cls: "{g_node (network_build features_df dep_names) u,
         g_node (network_build features_df dep_names) v}
          = {Some (Some Biomarker), Some (Some Dependency)}"
  proof
    assume "u \<in> set (biomarkers_of features_df dep_names) \<and> v \<in> set dep_names"
    with dis have "g_node (network_build features_df dep_names) u = Some (Some Biomarker)"
      "g_node (network_build features_df dep_names) v = Some (Some Dependency)"
      by (auto intro: network_build_class)
    then show ?thesis by simp
  next
    assume "v \<in> set (biomarkers_of features_df dep_names) \<and> u \<in> set dep_names"
    with dis have "g_node (network_build features_df dep_names) v = Some (Some Biomarker)"
      "g_node (network_build features_df dep_names) u = Some (Some Dependency)"
      by (auto intro: network_build_class)
    then show ?thesis by auto
  qed
  then show neq: "g_node (network_build features_df dep_names) u
          \<noteq> g_node (network_build features_df dep_names) v"
    by (auto simp: doubleton_eq_iff)
  then show "u \<noteq> v" by auto
qed



lemmas network_eval =
  network_build_alt biomarkers_of_def filtered_features_def keep_listed_def
  keep_positive_def unique_def row_biomarker_def sparsified_features_def sparsify_def
  normalize_per_dependency_def group_values_def f_max_def row_score_def row_dependency_def
  drop_small_def EDGE_MIN_def topk_per_dependency_def topk_per_biomarker_def
  groupby_head_def TOPK_PER_DEP_def TOPK_PER_BM_def build_edges_def add_edge_def
  add_nodes_from_def ensure_node_def empty_graph_def f_less_def f_le_def
  less_eq_prod_def less_prod_def Let_def

lemma network_build_collision:
  "g_adj (network_build [(''X'', ''X'', Finite 0.5)] [''X'']) ''X'' ''X'' = Some (Finite 1)
   \<and> g_node (network_build [(''X'', ''X'', Finite 0.5)] [''X'']) ''X'' = Some (Some Dependency)
   \<and> biomarkers_of [(''X'', ''X'', Finite 0.5)] [''X''] = [''X'']"
  by (simp add: network_eval)

lemma network_build_py_unguarded:
  "g_adj (network_build_py [(''b'', ''d'', Finite 0.5)] Map.empty []) ''b'' ''d'' = Some (Finite 0.5)
   \<and> g_node (network_build_py [(''b'', ''d'', Finite 0.5)] Map.empty []) ''d'' = Some None
   \<and> g_node (network_build_py [(''b'', ''d'', Finite 0.5)] Map.empty []) ''b''
        = Some (Some Biomarker)"
  by (simp add: network_build_py_def map_dependencies_def top_edges_def unique_def
      add_weighted_edges_from_def add_edge_def add_nodes_from_def ensure_node_def
      empty_graph_def row_biomarker_def row_score_def Let_def)

text \<open>The neighbours of a node of the built graph come from the rows of the edge loop.\<close>

lemma add_edge_adj_dom:
  "dom (g_adj (add_edge u v w g) x)
     \<subseteq> dom (g_adj g x) \<union> (if x = u then {v} else {}) \<union> (if x = v then {u} else {})"
  by (auto simp: add_edge_def Let_def split: if_splits)

lemma build_edges_adj_dom:
  "dom (g_adj (build_edges biomarkers valid_deps df g) x)
     \<subseteq> dom (g_adj g x)
       \<union> row_dependency ` set (filter (\<lambda>r. row_biomarker r = x) df)
       \<union> row_biomarker ` set (filter (\<lambda>r. row_dependency r = x) df)"
proof (induction df arbitrary: g)
  case Nil
  then show ?case by (simp add: build_edges_def)
next
  case (Cons r df)
  obtain b d w where r: "r = (b, d, w)" by (cases r)
  let ?g = "if b \<in> set biomarkers \<and> d \<in> valid_deps then add_edge b d w g else g"
  have step: "dom (g_adj ?g x)
      \<subseteq> dom (g_adj g x) \<union> (if x = b then {d} else {}) \<union> (if x = d then {b} else {})"
    using add_edge_adj_dom [of b d w g x] by auto
  have "build_edges biomarkers valid_deps (r # df) g = build_edges biomarkers valid_deps df ?g"
    by (simp add: build_edges_def r)
  with Cons.IH [of ?g] step show ?case
    by (auto simp: r row_biomarker_def row_dependency_def split: if_splits)
qed

lemma network_build_neighbours:
  "dom (g_adj (network_build features_df dep_names) x)
     \<subseteq> row_dependency ` set (filter (\<lambda>r. row_biomarker r = x)
                                 (sparsified_features features_df dep_names))
       \<union> row_biomarker ` set (filter (\<lambda>r. row_dependency r = x)
                                 (sparsified_features features_df dep_names))"
  using build_edges_adj_dom [of "biomarkers_of features_df dep_names" "set dep_names"
      "sparsified_features features_df dep_names"
      "add_nodes_from (sorted_list_of_set (set dep_names)) Dependency
          (add_nodes_from (biomarkers_of features_df dep_names) Biomarker empty_graph)" x]
  by (simp add: network_build_alt add_nodes_from_adj empty_graph_def)

lemma sparsified_biomarkers:
  "row_biomarker ` set (sparsified_features features_df dep_names)
     \<subseteq> set (biomarkers_of features_df dep_names)"
proof -
  have "set (sparsified_features features_df dep_names)
      \<subseteq> set (normalize_per_dependency (filtered_features features_df dep_names))"
    unfolding sparsified_features_def sparsify_def drop_small_def
    using topk_per_biomarker_subset topk_per_dependency_subset by fastforce
  then have "row_biomarker ` set (sparsified_features features_df dep_names)
      \<subseteq> row_biomarker ` set (normalize_per_dependency (filtered_features features_df dep_names))"
    by blast
  also have "\<dots> = row_biomarker ` set (filtered_features features_df dep_names)"
    by (force simp: normalize_alt row_biomarker_def image_iff)
  also have "\<dots> = set (biomarkers_of features_df dep_names)"
    by (simp add: biomarkers_of_def unique_set)
  finally show ?thesis .
qed

lemma sparsified_dependencies:
  "row_dependency ` set (sparsified_features features_df dep_names) \<subseteq> set dep_names"
proof -
  have "set (sparsified_features features_df dep_names)
      \<subseteq> set (normalize_per_dependency (filtered_features features_df dep_names))"
    unfolding sparsified_features_def sparsify_def drop_small_def
    using topk_per_biomarker_subset topk_per_dependency_subset by fastforce
  then have "row_dependency ` set (sparsified_features features_df dep_names)
      \<subseteq> row_dependency ` set (normalize_per_dependency (filtered_features features_df dep_names))"
    by blast
  also have "\<dots> = row_dependency ` set (filtered_features features_df dep_names)"
    by (force simp: normalize_alt row_dependency_def image_iff)
  also have "\<dots> \<subseteq> set dep_names"
    by (auto simp: filtered_features_def keep_positive_def keep_listed_def)
  finally show ?thesis .
qed

lemma network_degree_caps:
  "x \<notin> set (biomarkers_of features_df dep_names) \<Longrightarrow>
     card (dom (g_adj (network_build features_df dep_names) x)) \<le> TOPK_PER_DEP"
  "x \<notin> set dep_names \<Longrightarrow>
     card (dom (g_adj (network_build features_df dep_names) x)) \<le> TOPK_PER_BM"
proof -
  let ?S = "sparsified_features features_df dep_names"
  let ?A = "row_dependency ` set (filter (\<lambda>r. row_biomarker r = x) ?S)"
  let ?B = "row_biomarker ` set (filter (\<lambda>r. row_dependency r = x) ?S)"
  note sub = network_build_neighbours [of features_df dep_names x]
  have cb: "card ?B \<le> TOPK_PER_DEP"
  proof -
    have "card ?B \<le> length (filter (\<lambda>r. row_dependency r = x) ?S)" by (rule partner_count)
    also have "\<dots> \<le> length (filter (\<lambda>r. row_dependency r = x)
        (topk_per_dependency (drop_small
           (normalize_per_dependency (filtered_features features_df dep_names)))))"
      unfolding sparsified_features_def sparsify_def by (rule topk_per_biomarker_shrinks)
    also have "\<dots> \<le> TOPK_PER_DEP" by (rule topk_per_dependency_count)
    finally show ?thesis .
  qed
  have ca: "card ?A \<le> TOPK_PER_BM"
  proof -
    have "card ?A \<le> length (filter (\<lambda>r. row_biomarker r = x) ?S)" by (rule partner_count)
    also have "\<dots> \<le> TOPK_PER_BM"
      unfolding sparsified_features_def sparsify_def by (rule topk_per_biomarker_count)
    finally show ?thesis .
  qed
  show "card (dom (g_adj (network_build features_df dep_names) x)) \<le> TOPK_PER_DEP"
    if "x \<notin> set (biomarkers_of features_df dep_names)"
  proof -
    from that sparsified_biomarkers [of features_df dep_names]
    have "filter (\<lambda>r. row_biomarker r = x) ?S = []"
      by (auto simp: filter_empty_conv)
    with sub have "dom (g_adj (network_build features_df dep_names) x) \<subseteq> ?B" by simp
    then have "card (dom (g_adj (network_build features_df dep_names) x)) \<le> card ?B"
      by (intro card_mono) simp_all
    with cb show ?thesis by simp
  qed
  show "card (dom (g_adj (network_build features_df dep_names) x)) \<le> TOPK_PER_BM"
    if "x \<notin> set dep_names"
  proof -
    from that sparsified_dependencies [of features_df dep_names]
    have "filter (\<lambda>r. row_dependency r = x) ?S = []"
      by (auto simp: filter_empty_conv)
    with sub have "dom (g_adj (network_build features_df dep_names) x) \<subseteq> ?A" by simp
    then have "card (dom (g_adj (network_build features_df dep_names) x)) \<le> card ?A"
      by (intro card_mono) simp_all
    with ca show ?thesis by simp
  qed
qed

lemma dict_set_map_fst:
  "map fst (dict_set k v p) = (if k \<in> set (map fst p) then map fst p else map fst p @ [k])"
proof (induction p)
  case Nil
  then show ?case by simp
next
  case (Cons a p)
  obtain k' v' where a: "a = (k', v')" by (cases a)
  show ?case
  proof (cases "k' = k")
    case True
    then show ?thesis by (simp add: a)
  next
    case False
    then show ?thesis using Cons.IH by (simp add: a)
  qed
qed

lemma dict_set_keys: "set (map fst (dict_set k v p)) = insert k (set (map fst p))"
  unfolding dict_set_map_fst by auto

lemma dict_set_distinct: "distinct (map fst p) \<Longrightarrow> distinct (map fst (dict_set k v p))"
  unfolding dict_set_map_fst by auto

lemma dict_set_entry:
  "(n, j) \<in> set (dict_set k v p) \<Longrightarrow> (n, j) \<in> set p \<or> (n = k \<and> j = v)"
  by (induction p) (auto split: if_splits)

lemma inner_keys:
  "set (map fst (fold (\<lambda>node p. dict_set node v p) c p)) = set c \<union> set (map fst p)"
proof (induction c arbitrary: p)
  case Nil
  then show ?case by simp
next
  case (Cons a c)
  have "set (map fst (fold (\<lambda>node p. dict_set node v p) (a # c) p))
      = set c \<union> set (map fst (dict_set a v p))"
    using Cons.IH [of "dict_set a v p"] by simp
  also have "\<dots> = set (a # c) \<union> set (map fst p)"
    unfolding dict_set_keys by auto
  finally show ?case .
qed

lemma inner_distinct:
  "distinct (map fst p) \<Longrightarrow> distinct (map fst (fold (\<lambda>node p. dict_set node v p) c p))"
proof (induction c arbitrary: p)
  case Nil
  then show ?case by simp
next
  case (Cons a c)
  from Cons.prems have "distinct (map fst (dict_set a v p))" by (rule dict_set_distinct)
  from Cons.IH [OF this] show ?case by simp
qed

lemma inner_entry:
  "(n, j) \<in> set (fold (\<lambda>node p. dict_set node v p) c p) \<Longrightarrow>
     (n, j) \<in> set p \<or> (n \<in> set c \<and> j = v)"
proof (induction c arbitrary: p)
  case Nil
  then show ?case by simp
next
  case (Cons a c)
  from Cons.prems have "(n, j) \<in> set (fold (\<lambda>node p. dict_set node v p) c (dict_set a v p))"
    by simp
  from Cons.IH [OF this] have "(n, j) \<in> set (dict_set a v p) \<or> (n \<in> set c \<and> j = v)" .
  then show ?case
  proof
    assume "(n, j) \<in> set (dict_set a v p)"
    from dict_set_entry [OF this] show ?thesis by auto
  next
    assume "n \<in> set c \<and> j = v"
    then show ?thesis by simp
  qed
qed

lemma assign_communities_Cons:
  "assign_communities ((i, c) # L) p = assign_communities L (fold (\<lambda>node p. dict_set node (int i) p) c p)"
  by (simp add: assign_communities_def)

lemma assign_communities_Nil: "assign_communities [] p = p"
  by (simp add: assign_communities_def)

lemma outer_keys:
  "set (map fst (assign_communities L p)) = set (concat (map snd L)) \<union> set (map fst p)"
proof (induction L arbitrary: p)
  case Nil
  then show ?case by (simp add: assign_communities_Nil)
next
  case (Cons a L)
  obtain i c where a: "a = (i, c)" by (cases a)
  have "set (map fst (assign_communities (a # L) p))
      = set (concat (map snd L)) \<union> set (map fst (fold (\<lambda>node p. dict_set node (int i) p) c p))"
    unfolding a assign_communities_Cons by (rule Cons.IH)
  also have "\<dots> = set (concat (map snd (a # L))) \<union> set (map fst p)"
    unfolding inner_keys a by auto
  finally show ?case .
qed

lemma outer_distinct:
  "distinct (map fst p) \<Longrightarrow> distinct (map fst (assign_communities L p))"
proof (induction L arbitrary: p)
  case Nil
  then show ?case by (simp add: assign_communities_Nil)
next
  case (Cons a L)
  obtain i c where a: "a = (i, c)" by (cases a)
  from Cons.prems have "distinct (map fst (fold (\<lambda>node p. dict_set node (int i) p) c p))"
    by (rule inner_distinct)
  from Cons.IH [OF this] show ?case unfolding a assign_communities_Cons .
qed

lemma outer_entry:
  "(n, j) \<in> set (assign_communities L p)
     \<Longrightarrow> (n, j) \<in> set p \<or> (\<exists>i c. (i, c) \<in> set L \<and> n \<in> set c \<and> j = int i)"
proof (induction L arbitrary: p)
  case Nil
  then show ?case by (simp add: assign_communities_Nil)
next
  case (Cons a L)
  obtain i c where a: "a = (i, c)" by (cases a)
  from Cons.prems have "(n, j) \<in> set (assign_communities L (fold (\<lambda>node p. dict_set node (int i) p) c p))"
    unfolding a assign_communities_Cons .
  from Cons.IH [OF this]
  have "(n, j) \<in> set (fold (\<lambda>node p. dict_set node (int i) p) c p)
        \<or> (\<exists>i c. (i, c) \<in> set L \<and> n \<in> set c \<and> j = int i)" .
  then show ?case
  proof
    assume "(n, j) \<in> set (fold (\<lambda>node p. dict_set node (int i) p) c p)"
    from inner_entry [OF this] show ?thesis unfolding a by auto
  next
    assume "\<exists>i c. (i, c) \<in> set L \<and> n \<in> set c \<and> j = int i"
    then show ?thesis by auto
  qed
qed

lemma partition_of_assign: "partition_of cs = assign_communities (enumerate 0 cs) []"
  by (simp add: partition_of_def)

lemma partition_of_keys: "set (map fst (partition_of cs)) = set (concat cs)"
  unfolding partition_of_assign outer_keys by simp

lemma partition_of_distinct: "distinct (map fst (partition_of cs))"
  unfolding partition_of_assign by (rule outer_distinct) simp

lemma partition_of_entry:
  assumes "(n, j) \<in> set (partition_of cs)"
  shows "0 \<le> j \<and> j < int (length cs) \<and> n \<in> set (cs ! nat j)"
proof -
  from assms have "(n, j) \<in> set (assign_communities (enumerate 0 cs) [])"
    by (simp only: partition_of_assign)
  from outer_entry [OF this] obtain i c
    where ic: "(i, c) \<in> set (enumerate 0 cs)" "n \<in> set c" "j = int i" by auto
  from ic(1) have "i < length cs" "cs ! i = c"
    by (simp_all add: in_set_enumerate_eq)
  with ic show ?thesis by simp
qed


section \<open>Properties of the Table Merger\<close>

lemma as_int8_cases: "as_int8 t = 0 \<or> as_int8 t = 1"
  by (simp add: as_int8_def)

lemma frame_cells_map_frame: "frame_cells (map_frame f df) = f ` frame_cells df"
  unfolding frame_cells_def map_frame_def by (auto simp: image_iff) force+


lemma count_enumerate:
  "length (filter (\<lambda>(j, y). y = x) (enumerate n ys)) = length (filter (\<lambda>y. y = x) ys)"
  by (induction ys arbitrary: n) auto

lemma map_enumerate_snd:
  "map (\<lambda>(i, x). g x) (enumerate n xs) = map g xs"
  by (induction xs arbitrary: n) auto

lemma join_pairs_labels:
  "map (\<lambda>(i, j). lidx ! i) (join_pairs lidx ridx)
     = concat (map (\<lambda>x. replicate (length (filter (\<lambda>y. y = x) ridx)) x) lidx)"
proof -
  have "map (\<lambda>(i, j). lidx ! i) (join_pairs lidx ridx)
      = concat (map (\<lambda>(i, x). map (\<lambda>(j, y). lidx ! i)
                   (filter (\<lambda>(j, y). y = x) (enumerate 0 ridx))) (enumerate 0 lidx))"
    by (simp add: join_pairs_def map_concat comp_def split_def)
  also have "\<dots> = concat (map (\<lambda>(i, x). replicate (length (filter (\<lambda>y. y = x) ridx)) x)
                   (enumerate 0 lidx))"
  proof (rule arg_cong [where f = concat], rule map_cong [OF refl])
    fix p assume p: "p \<in> set (enumerate 0 lidx)"
    obtain i x where ix: "p = (i, x)" by (cases p)
    with p have "lidx ! i = x" by (simp add: in_set_enumerate_eq)
    then have "map (\<lambda>(j, y). lidx ! i) (filter (\<lambda>(j, y). y = x) (enumerate 0 ridx))
        = replicate (length (filter (\<lambda>(j, y). y = x) (enumerate 0 ridx))) x"
      by (simp add: map_replicate_const split_def)
    then show "(case p of (i, x) \<Rightarrow> map (\<lambda>(j, y). lidx ! i)
                   (filter (\<lambda>(j, y). y = x) (enumerate 0 ridx)))
        = (case p of (i, x) \<Rightarrow> replicate (length (filter (\<lambda>y. y = x) ridx)) x)"
      by (simp add: ix count_enumerate)
  qed
  also have "\<dots> = concat (map (\<lambda>x. replicate (length (filter (\<lambda>y. y = x) ridx)) x) lidx)"
    by (simp only: map_enumerate_snd)
  finally show ?thesis .
qed

lemma distinct_count:
  "distinct ys \<Longrightarrow> length (filter (\<lambda>y. y = x) ys) = (if x \<in> set ys then 1 else 0)"
  by (induction ys) auto

lemma replicate_member:
  "concat (map (\<lambda>x. replicate (if x \<in> S then 1 else 0) x) xs) = filter (\<lambda>x. x \<in> S) xs"
  by (induction xs) auto

lemma join_inner_index:
  assumes "join_inner left right = Inr m" "distinct (index right)"
  shows "index m = filter (\<lambda>x. x \<in> set (index right)) (index left)"
proof -
  from assms(1) have "index m = map (\<lambda>(i, j). index left ! i) (join_pairs (index left) (index right))"
    by (auto simp: join_inner_def Let_def split: if_splits)
  also have "\<dots> = concat (map (\<lambda>x. replicate (if x \<in> set (index right) then 1 else 0) x) (index left))"
    unfolding join_pairs_labels using assms(2) by (simp add: distinct_count)
  finally show ?thesis by (simp only: replicate_member)
qed

lemma join_inner_index_set:
  assumes "join_inner left right = Inr m"
  shows "set (index m) = set (index left) \<inter> set (index right)"
proof -
  from assms have "index m = map (\<lambda>(i, j). index left ! i) (join_pairs (index left) (index right))"
    by (auto simp: join_inner_def Let_def split: if_splits)
  then have "set (index m)
      = (\<Union>x \<in> set (index left).
           set (replicate (length (filter (\<lambda>y. y = x) (index right))) x))"
    unfolding join_pairs_labels by simp
  also have "\<dots> = set (index left) \<inter> set (index right)"
    by (auto simp: set_replicate_conv_if filter_empty_conv split: if_splits)
  finally show ?thesis .
qed

lemma suffix_overlaps_index: "index (suffix_overlaps left right s) = index right"
  by (simp add: suffix_overlaps_def)

lemma merge_loop_index:
  assumes "merge_loop (Some m0) tables = Inr (Some m)"
    and "\<forall>(l, t) \<in> set tables. distinct (index t)"
  shows "index m = filter (\<lambda>x. \<forall>(l, t) \<in> set tables. x \<in> set (index t)) (index m0)"
  using assms
proof (induction tables arbitrary: m0)
  case Nil
  then show ?case by simp
next
  case (Cons a tables)
  obtain name df where a: "a = (name, df)" by (cases a)
  from Cons.prems(1) obtain m1
    where j: "join_inner m0 (suffix_overlaps m0 df name) = Inr m1"
      and rest: "merge_loop (Some m1) tables = Inr (Some m)"
    by (auto simp: a split: sum.splits)
  from Cons.prems(2) have d: "distinct (index df)"
    and ds: "\<forall>(l, t) \<in> set tables. distinct (index t)"
    by (auto simp: a)
  have m1: "index m1 = filter (\<lambda>x. x \<in> set (index df)) (index m0)"
    using join_inner_index [OF j] d by (simp add: suffix_overlaps_index)
  have "index m = filter (\<lambda>x. \<forall>(l, t) \<in> set tables. x \<in> set (index t)) (index m1)"
    using rest ds by (rule Cons.IH)
  also have "\<dots> = filter (\<lambda>x. \<forall>(l, t) \<in> set (a # tables). x \<in> set (index t)) (index m0)"
    unfolding m1 a by (auto intro: filter_cong)
  finally show ?case .
qed

lemma merge_loop_index_set:
  assumes "merge_loop (Some m0) tables = Inr (Some m)"
  shows "set (index m) = set (index m0) \<inter> (\<Inter>(l, t) \<in> set tables. set (index t))"
  using assms
proof (induction tables arbitrary: m0)
  case Nil
  then show ?case by simp
next
  case (Cons a tables)
  obtain name df where a: "a = (name, df)" by (cases a)
  from Cons.prems obtain m1
    where j: "join_inner m0 (suffix_overlaps m0 df name) = Inr m1"
      and rest: "merge_loop (Some m1) tables = Inr (Some m)"
    by (auto simp: a split: sum.splits)
  have m1: "set (index m1) = set (index m0) \<inter> set (index df)"
    using join_inner_index_set [OF j] by (simp add: suffix_overlaps_index)
  have "set (index m) = set (index m1) \<inter> (\<Inter>(l, t) \<in> set tables. set (index t))"
    using rest by (rule Cons.IH)
  then show ?case unfolding m1 a by auto
qed

lemma merge_tables_index:
  assumes "merge_tables tables = Inr merged"
    and "\<forall>(l, t) \<in> set tables. distinct (index t)"
  obtains l0 t0 rest where "tables = (l0, t0) # rest"
    "index merged = filter (\<lambda>x. \<forall>(l, t) \<in> set rest. x \<in> set (index t)) (index t0)"
proof -
  from assms(1) have ne: "tables \<noteq> []"
    by (auto simp: merge_tables_def)
  then obtain l0 t0 rest where t: "tables = (l0, t0) # rest"
    by (cases tables) auto
  from assms(1) have "merge_loop None tables = Inr (Some merged)"
    by (auto simp: merge_tables_def split: if_splits sum.splits option.splits)
  then have "merge_loop (Some t0) rest = Inr (Some merged)" by (simp add: t)
  moreover from assms(2) have "\<forall>(l, t) \<in> set rest. distinct (index t)" by (simp add: t)
  ultimately have "index merged
      = filter (\<lambda>x. \<forall>(l, t) \<in> set rest. x \<in> set (index t)) (index t0)"
    by (rule merge_loop_index)
  with t show ?thesis by (rule that)
qed

lemma merge_tables_rows:
  assumes "merge_tables tables = Inr merged"
    and dist: "\<forall>(l, t) \<in> set tables. distinct (index t)"
  shows "set (index merged) = (\<Inter>(l, t) \<in> set tables. set (index t))"
    and "distinct (index merged)"
    and "\<forall>(l, t) \<in> set tables. n_rows merged \<le> n_rows t"
proof -
  from assms obtain l0 t0 rest where t: "tables = (l0, t0) # rest"
    and idx: "index merged = filter (\<lambda>x. \<forall>(l, t) \<in> set rest. x \<in> set (index t)) (index t0)"
    by (rule merge_tables_index)
  show s: "set (index merged) = (\<Inter>(l, t) \<in> set tables. set (index t))"
    unfolding idx t by auto
  from dist have "distinct (index t0)" by (simp add: t)
  then show d: "distinct (index merged)" unfolding idx by simp
  show "\<forall>(l, t) \<in> set tables. n_rows merged \<le> n_rows t"
  proof (clarify)
    fix l t assume lt: "(l, t) \<in> set tables"
    with s have sub: "set (index merged) \<subseteq> set (index t)" by auto
    have "n_rows merged = card (set (index merged))"
      using d by (simp add: n_rows_def distinct_card)
    also have "\<dots> \<le> card (set (index t))"
      using sub by (simp add: card_mono)
    also have "\<dots> \<le> n_rows t" by (simp add: n_rows_def card_length)
    finally show "n_rows merged \<le> n_rows t" .
  qed
qed

lemma map_of_filter_key:
  "(\<And>v. P (k, v)) \<Longrightarrow> map_of (filter P xs) k = map_of xs k"
  by (induction xs) auto

lemma map_of_names: "(map_of xs k = None) = (k \<notin> set (map fst xs))"
  by (simp add: map_of_eq_None_iff)

lemma drop_metadata_modelid:
  "map_of (columns (drop_metadata_cols df {''ModelID''})) ''ModelID''
     = map_of (columns df) ''ModelID''"
  unfolding drop_metadata_cols_def by (simp add: map_of_filter_key)

lemma drop_metadata_index:
  "index (drop_metadata_cols df keep) = index df"
  "index_name (drop_metadata_cols df keep) = index_name df"
  by (simp_all add: drop_metadata_cols_def)

lemma set_index_on_modelid_cases:
  "set_index_on_modelid df =
     (case map_of (columns df) ''ModelID'' of
        Some labels \<Rightarrow> Inr \<lparr>index_name = Some ''ModelID'', index = labels,
                        columns = filter (\<lambda>(c, vs). c \<noteq> ''ModelID'') (columns df)\<rparr>
      | None \<Rightarrow> if index_name df \<noteq> Some ''ModelID'' then Inl ValueError else Inr df)"
proof (cases "map_of (columns df) ''ModelID''")
  case None
  then have "''ModelID'' \<notin> set (column_names df)"
    by (simp add: map_of_names column_names_def)
  with None show ?thesis by (simp add: set_index_on_modelid_def)
next
  case (Some labels)
  then have "''ModelID'' \<in> set (column_names df)"
    using map_of_names [of "columns df" "''ModelID''"] by (simp add: column_names_def)
  with Some show ?thesis by (simp add: set_index_on_modelid_def set_index_def)
qed

lemma set_index_on_modelid_result:
  "set_index_on_modelid df = Inl e \<Longrightarrow> e = ValueError"
  "set_index_on_modelid df = Inr t \<Longrightarrow> index t = model_ids df"
  unfolding set_index_on_modelid_cases model_ids_def
  by (auto split: option.splits if_splits)

lemma set_index_on_modelid_lacks:
  assumes "''ModelID'' \<notin> set (column_names df)" "index_name df \<noteq> Some ''ModelID''"
  shows "set_index_on_modelid df = Inl ValueError"
  using assms by (simp add: set_index_on_modelid_def)

lemma model_ids_drop_metadata:
  "model_ids (drop_metadata_cols df {''ModelID''}) = model_ids df"
  by (simp add: model_ids_def drop_metadata_modelid drop_metadata_index split: option.splits)

lemma load_omics_table_result:
  "load_omics_table NoFile = Inr None"
  "load_omics_table BadFile = Inl ParserError"
  "load_omics_table (CsvFile df) = Inr r \<Longrightarrow> \<exists>t. r = Some t \<and> index t = model_ids df"
proof -
  show "load_omics_table NoFile = Inr None" by (simp add: load_omics_table_def)
  show "load_omics_table BadFile = Inl ParserError" by (simp add: load_omics_table_def)
  show "\<exists>t. r = Some t \<and> index t = model_ids df" if "load_omics_table (CsvFile df) = Inr r"
    using that set_index_on_modelid_result(2) [of "drop_metadata_cols df {''ModelID''}"]
    by (auto simp: load_omics_table_def model_ids_drop_metadata split: sum.splits)
qed

lemma column_names_drop_metadata:
  "set (column_names (drop_metadata_cols df keep)) \<subseteq> set (column_names df)"
  by (auto simp: column_names_def drop_metadata_cols_def)

lemma load_omics_table_lacks:
  assumes "''ModelID'' \<notin> set (column_names df)" "index_name df \<noteq> Some ''ModelID''"
  shows "load_omics_table (CsvFile df) = Inl ValueError"
proof -
  have "''ModelID'' \<notin> set (column_names (drop_metadata_cols df {''ModelID''}))"
    using assms(1) column_names_drop_metadata by blast
  moreover have "index_name (drop_metadata_cols df {''ModelID''}) \<noteq> Some ''ModelID''"
    using assms(2) by (simp add: drop_metadata_index)
  ultimately have "set_index_on_modelid (drop_metadata_cols df {''ModelID''}) = Inl ValueError"
    by (rule set_index_on_modelid_lacks)
  then show ?thesis by (simp add: load_omics_table_def)
qed

text \<open>The three loading blocks share the loader; what they add keeps the row labels.\<close>

lemma index_map_frame: "index (map_frame f df) = index df"
  by (simp add: map_frame_def)

lemma index_coerce: "index (coerce_numeric_frame parse df) = index df"
  by (simp add: coerce_numeric_frame_def)

lemma usable_ids:
  assumes "r = None \<and> ids_of f = [] \<or>
           (\<exists>t df. r = Some t \<and> f = CsvFile df \<and> index t = model_ids df)"
  shows "map (\<lambda>(l, t). index t) (usable label r) = ids_of f"
  using assms by (auto simp: usable_def ids_of_def n_rows_def)

lemma load_block_result:
  assumes g: "\<And>df. index (g df) = index df"
    and blk: "(case load_omics_table f of
            Inl e \<Rightarrow> Inl e
          | Inr None \<Rightarrow> Inr None
          | Inr (Some df) \<Rightarrow> Inr (Some (g df))) = Inr r"
  shows "r = None \<and> ids_of f = [] \<or>
         (\<exists>t df. r = Some t \<and> f = CsvFile df \<and> index t = model_ids df)"
proof (cases f)
  case NoFile
  with blk show ?thesis by (auto simp: load_omics_table_result ids_of_def)
next
  case BadFile
  with blk show ?thesis by (simp add: load_omics_table_result)
next
  case (CsvFile df)
  show ?thesis
  proof (cases "load_omics_table (CsvFile df)")
    case (Inl e)
    with blk CsvFile show ?thesis by simp
  next
    case (Inr r0)
    from load_omics_table_result(3) [OF this] obtain t0
      where "r0 = Some t0" "index t0 = model_ids df" by blast
    with blk CsvFile Inr show ?thesis by (auto simp: g)
  qed
qed

lemma load_block_lacks:
  assumes "''ModelID'' \<notin> set (column_names df)" "index_name df \<noteq> Some ''ModelID''"
  shows "(case load_omics_table (CsvFile df) of
            Inl e \<Rightarrow> Inl e
          | Inr None \<Rightarrow> Inr None
          | Inr (Some df) \<Rightarrow> Inr (Some (g df))) = Inl ValueError"
  using load_omics_table_lacks [OF assms] by simp

lemma load_expr_result:
  "load_expr parse f = Inr r \<Longrightarrow>
     r = None \<and> ids_of f = [] \<or>
     (\<exists>t df. r = Some t \<and> f = CsvFile df \<and> index t = model_ids df)"
  by (rule load_block_result [where g = "\<lambda>df. map_frame as_mcell (coerce_numeric_frame parse df)"])
     (simp_all add: load_expr_def index_map_frame index_coerce)

lemma load_mutation_result:
  "load_mutation parse f = Inr r \<Longrightarrow>
     r = None \<and> ids_of f = [] \<or>
     (\<exists>t df. r = Some t \<and> f = CsvFile df \<and> index t = model_ids df)"
  by (rule load_block_result [where g = "\<lambda>df. map_frame Int8
          (binarize_any_nonzero (coerce_numeric_frame parse df))"])
     (simp_all add: load_mutation_def index_map_frame index_coerce binarize_any_nonzero_def)

lemma load_cnv_result:
  "load_cnv parse f = Inr r \<Longrightarrow>
     r = None \<and> ids_of f = [] \<or>
     (\<exists>t df. r = Some t \<and> f = CsvFile df \<and> index t = model_ids df)"
  by (rule load_block_result [where g = "\<lambda>df. map_frame Int8
          (binarize_cnv_loss (coerce_numeric_frame parse df) CNV_THRESHOLD)"])
     (simp_all add: load_cnv_def index_map_frame index_coerce binarize_cnv_loss_def)

lemma load_lacks:
  assumes "''ModelID'' \<notin> set (column_names df)" "index_name df \<noteq> Some ''ModelID''"
  shows "load_expr parse (CsvFile df) = Inl ValueError"
    "load_mutation parse (CsvFile df) = Inl ValueError"
    "load_cnv parse (CsvFile df) = Inl ValueError"
  unfolding load_expr_def load_mutation_def load_cnv_def
  by (rule load_block_lacks [OF assms])+

lemma usable_rows: "(l, t) \<in> set (usable label r) \<Longrightarrow> 0 < n_rows t"
  by (auto simp: usable_def split: option.splits if_splits)

lemma collect_tables_result:
  assumes "collect_tables parse files = Inr tables"
  shows "map (\<lambda>(l, t). index t) tables = source_ids files"
    and "\<forall>(l, t) \<in> set tables. 0 < n_rows t"
proof -
  from assms obtain expr mut_dmg mut_hot cnv
    where l: "load_expr parse (expression_csv files) = Inr expr"
      "load_mutation parse (mutation_damaging_csv files) = Inr mut_dmg"
      "load_mutation parse (mutation_hotspot_csv files) = Inr mut_hot"
      "load_cnv parse (cnv_csv files) = Inr cnv"
    and t: "tables = usable ''expr'' expr @ usable ''mut_dmg'' mut_dmg
           @ usable ''mut_hot'' mut_hot @ usable ''cnv'' cnv"
    by (auto simp: collect_tables_def split: sum.splits)
  have "map (\<lambda>(l, t). index t) (usable ''expr'' expr) = ids_of (expression_csv files)"
    using load_expr_result [OF l(1)] by (rule usable_ids)
  moreover have "map (\<lambda>(l, t). index t) (usable ''mut_dmg'' mut_dmg)
      = ids_of (mutation_damaging_csv files)"
    using load_mutation_result [OF l(2)] by (rule usable_ids)
  moreover have "map (\<lambda>(l, t). index t) (usable ''mut_hot'' mut_hot)
      = ids_of (mutation_hotspot_csv files)"
    using load_mutation_result [OF l(3)] by (rule usable_ids)
  moreover have "map (\<lambda>(l, t). index t) (usable ''cnv'' cnv) = ids_of (cnv_csv files)"
    using load_cnv_result [OF l(4)] by (rule usable_ids)
  ultimately show "map (\<lambda>(l, t). index t) tables = source_ids files"
    by (simp add: t source_ids_def)
  show "\<forall>(l, t) \<in> set tables. 0 < n_rows t"
    unfolding t using usable_rows by auto
qed

lemma collect_tables_lacks:
  assumes src: "CsvFile df \<in> {expression_csv files, mutation_damaging_csv files,
                          mutation_hotspot_csv files, cnv_csv files}"
    and lacks: "''ModelID'' \<notin> set (column_names df)" "index_name df \<noteq> Some ''ModelID''"
  shows "\<exists>e. collect_tables parse files = Inl e"
proof (cases "collect_tables parse files")
  case (Inl e)
  then show ?thesis by blast
next
  case (Inr tables)
  note l = load_lacks [OF lacks, of parse]
  from Inr obtain expr mut_dmg mut_hot cnv
    where "load_expr parse (expression_csv files) = Inr expr"
      "load_mutation parse (mutation_damaging_csv files) = Inr mut_dmg"
      "load_mutation parse (mutation_hotspot_csv files) = Inr mut_hot"
      "load_cnv parse (cnv_csv files) = Inr cnv"
    by (auto simp: collect_tables_def split: sum.splits)
  with src l show ?thesis by auto
qed

lemma set_index_present:
  "name \<in> set (column_names df) \<Longrightarrow> \<exists>d. set_index name df = Inr d"
  using map_of_names [of "columns df" name]
  by (auto simp: set_index_def column_names_def split: option.splits)

lemma dependency_copy_result:
  "dependency_copy f = (err, copied) \<Longrightarrow> err \<noteq> None \<Longrightarrow> f = BadFile"
proof (cases f)
  case (CsvFile deps)
  assume r: "dependency_copy f = (err, copied)" and e: "err \<noteq> None"
  show ?thesis
  proof (cases "''ModelID'' \<in> set (column_names deps)")
    case True
    from set_index_present [OF this] obtain d where "set_index ''ModelID'' deps = Inr d" ..
    with CsvFile True r e show ?thesis by (simp add: dependency_copy_def)
  next
    case False
    with CsvFile r e show ?thesis by (simp add: dependency_copy_def)
  qed
qed (simp_all add: dependency_copy_def)

lemma preprocess_failure_output:
  assumes "preprocess parse files = (Some e, written)" "written \<noteq> []"
  shows "dependency_csv files = BadFile"
proof -
  from assms obtain err copied where d: "dependency_copy (dependency_csv files) = (err, copied)"
    and e: "err = Some e"
    by (auto simp: preprocess_def Let_def split: sum.splits prod.splits)
  from dependency_copy_result [OF d] e show ?thesis by simp
qed

lemma preprocess_success:
  assumes "preprocess parse files = (None, written)"
  obtains tables merged out rest where
    "collect_tables parse files = Inr tables"
    "merge_tables tables = Inr merged"
    "reset_index merged = Inr out"
    "written = (''outputs/merged_biomarkers.csv'', MergedTable out) # rest"
  using assms
  by (auto simp: preprocess_def Let_def split: sum.splits prod.splits)

lemma reset_index_ids: "reset_index merged = Inr out \<Longrightarrow> ids out = index merged"
  by (auto simp: reset_index_def Let_def split: if_splits)

lemma merge_tables_nonempty: "merge_tables tables = Inr merged \<Longrightarrow> index merged \<noteq> []"
  by (auto simp: merge_tables_def n_rows_def split: if_splits sum.splits option.splits)

lemma merge_tables_zero_rows:
  assumes "merge_loop None tables = Inr (Some joined)" "n_rows joined = 0"
  shows "merge_tables tables = Inl RuntimeError"
  using assms by (simp add: merge_tables_def)

lemma ids_of_nonempty: "[] \<notin> set (ids_of f)"
  by (simp add: ids_of_def split: option.splits)

lemma source_ids_nonempty: "[] \<notin> set (source_ids files)"
  by (simp add: source_ids_def ids_of_nonempty)

lemma load_omics_table_error:
  "load_omics_table f = Inl e \<Longrightarrow> e = ValueError \<or> e = ParserError"
  by (auto simp: load_omics_table_def set_index_on_modelid_def set_index_def column_names_def
      split: csv_file.splits sum.splits if_splits option.splits dest: map_of_eq_None_iff [THEN iffD1])

lemma collect_tables_error:
  assumes "collect_tables parse files = Inl e"
  shows "e = ValueError \<or> e = ParserError"
proof -
  have "\<exists>f. load_omics_table f = Inl e"
    using assms
    by (auto simp: collect_tables_def load_expr_def load_mutation_def load_cnv_def
        split: sum.splits option.splits)
  then show ?thesis using load_omics_table_error by blast
qed

lemma merge_tables_no_common:
  assumes "(\<Inter>(l, t) \<in> set tables. set (index t)) = {}"
  shows "\<exists>e. merge_tables tables = Inl e"
proof (cases tables)
  case Nil
  then show ?thesis by (simp add: merge_tables_def)
next
  case (Cons a rest)
  obtain name t where a: "a = (name, t)" by (cases a)
  show ?thesis
  proof (cases "merge_loop (Some t) rest")
    case (Inl e)
    then show ?thesis by (simp add: merge_tables_def Cons a)
  next
    case (Inr r)
    show ?thesis
    proof (cases r)
      case None
      with Inr show ?thesis by (simp add: merge_tables_def Cons a)
    next
      case (Some m)
      have "set (index m) = set (index t) \<inter> (\<Inter>(l, t) \<in> set rest. set (index t))"
        using Inr unfolding Some by (rule merge_loop_index_set)
      also have "\<dots> = (\<Inter>(l, t) \<in> set tables. set (index t))"
        unfolding Cons a by auto
      finally have "index m = []" using assms by simp
      with Inr Some show ?thesis by (simp add: merge_tables_def Cons a n_rows_def)
    qed
  qed
qed

lemma as_int8_zero_one: "as_int8 t \<in> {0, 1}"
  by (simp add: as_int8_def)

lemma binarize_cells_zero_one:
  "frame_cells (binarize_any_nonzero df) \<subseteq> {0, 1}"
  "frame_cells (binarize_cnv_loss df threshold) \<subseteq> {0, 1}"
  unfolding binarize_any_nonzero_def binarize_cnv_loss_def frame_cells_map_frame
    any_nonzero_cell_def cnv_loss_cell_def
  using as_int8_zero_one by auto

lemma any_nonzero_cell_float:
  "any_nonzero_cell (F64 NaN) = 0"
  "any_nonzero_cell (F64 (Finite x)) = (if x \<noteq> 0 then 1 else 0)"
  "any_nonzero_cell (F64 PlusInf) = 1"
  "any_nonzero_cell (F64 MinusInf) = 1"
  by (simp_all add: any_nonzero_cell_def fillna0_def as_int8_def f_less_def)

lemma cnv_loss_cell_float:
  "cnv_loss_cell threshold (F64 NaN) = (if f_less (Finite 0) threshold then 1 else 0)"
  "cnv_loss_cell CNV_THRESHOLD (F64 NaN) = 0"
  "cnv_loss_cell threshold (F64 (Finite x))
     = (if f_less (Finite x) threshold then 1 else 0)"
  by (simp_all add: cnv_loss_cell_def fillna0_def as_int8_def CNV_THRESHOLD_def f_less_def)

lemma sint_neg64:
  fixes w :: "64 word"
  assumes "sint w \<noteq> - (2 ^ 63)"
  shows "sint (- w) = - sint w"
proof -
  have "- (2 ^ 63) \<le> sint w" "sint w < 2 ^ 63"
    using sint_ge [of w] sint_lt [of w] by simp_all
  with assms have "- (2 ^ 63) \<le> - sint w \<and> - sint w < 2 ^ 63" by simp
  then have "signed_take_bit 63 (- sint w) = - sint w"
    by (simp only: signed_take_bit_int_eq_self_iff)
  then show ?thesis by (simp add: sint_word_minus)
qed

lemma any_nonzero_cell_int:
  assumes "sint w \<noteq> - (2 ^ 63)"
  shows "any_nonzero_cell (I64 w) = (if w \<noteq> 0 then 1 else 0)"
proof -
  have z: "sint w = 0 \<longleftrightarrow> w = 0" by (rule signed_eq_0_iff)
  show ?thesis
    using sint_neg64 [OF assms] z
    by (auto simp: any_nonzero_cell_def fillna0_def abs64_def as_int8_def)
qed

lemmas merger_eval =
  preprocess_def collect_tables_def load_expr_def load_mutation_def load_cnv_def
  load_omics_table_def drop_metadata_cols_def set_index_on_modelid_def set_index_def
  column_names_def coerce_numeric_frame_def to_numeric_def map_frame_def
  binarize_any_nonzero_def binarize_cnv_loss_def any_nonzero_cell_def cnv_loss_cell_def
  fillna0_def abs64_def f_less_def as_int8_def CNV_THRESHOLD_def usable_def n_rows_def
  merge_tables_def suffix_overlaps_def join_inner_def join_pairs_def reset_index_def
  dependency_copy_def META_COLS_CANDIDATES_def Let_def

lemma preprocess_example_common:
  "preprocess (\<lambda>s. F64 NaN)
     \<lparr>expression_csv = CsvFile \<lparr>index_name = None, index = [IntNum 0, IntNum 1, IntNum 2],
          columns = [(''ModelID'', [Str ''A'', Str ''B'', Str ''C'']),
                     (''TP53'', [Num (Finite 1.5), Num (Finite 2), Num NaN])]\<rparr>,
      mutation_damaging_csv = CsvFile \<lparr>index_name = None, index = [IntNum 0, IntNum 1, IntNum 2],
          columns = [(''ModelID'', [Str ''B'', Str ''C'', Str ''D'']),
                     (''KRAS'', [IntNum 0, IntNum 2, IntNum 1])]\<rparr>,
      mutation_hotspot_csv = NoFile, cnv_csv = NoFile, dependency_csv = NoFile\<rparr>
   = (None,
      [(''outputs/merged_biomarkers.csv'',
        MergedTable \<lparr>id_name = ''ModelID'', ids = [Str ''B'', Str ''C''],
          features = [(''TP53'', [Float (Finite 2), Float NaN]), (''KRAS'', [Int8 0, Int8 1])]\<rparr>),
       (''outputs/processed_features.csv'',
        MergedTable \<lparr>id_name = ''ModelID'', ids = [Str ''B'', Str ''C''],
          features = [(''TP53'', [Float (Finite 2), Float NaN]), (''KRAS'', [Int8 0, Int8 1])]\<rparr>)])"
  by (simp add: merger_eval enumerate_eq_zip)

text \<open>
  Claim C4, as the code has it.  For every biomarker column the scorer emits the
  rows of \<open>top_links\<close> for that column's correlation row, whatever the batch size.
  These rows are at most \<open>TOPK_PER_BIOMARKER\<close> many, in descending order of
  score; each one carries the biomarker, a dependency of the row, and the
  \<^emph>\<open>absolute value\<close> of that correlation, which is at least \<open>MIN_ABS_CORR\<close>;
  and a correlation of the row that meets the threshold is left out only when
  \<open>TOPK_PER_BIOMARKER\<close> rows with an absolute value at least as large are kept.
\<close>

theorem top_links_topk_by_abs:
  "rows_out n bio_z dep_z
     = concat (map (\<lambda>(b, bcol). top_links b (corr_row n bcol dep_z)) bio_z) \<and>
   length (top_links b row) \<le> TOPK_PER_BIOMARKER \<and>
   sorted (map (\<lambda>e. - e_score e) (top_links b row)) \<and>
   (\<forall>e \<in> set (top_links b row).
      e_biomarker e = b \<and> MIN_ABS_CORR \<le> e_score e \<and>
      (\<exists>v. (e_dependency e, v) \<in> set row \<and> e_score e = \<bar>v\<bar>)) \<and>
   (\<forall>(d, v) \<in> set row. MIN_ABS_CORR \<le> \<bar>v\<bar> \<longrightarrow>
      (b, d, \<bar>v\<bar>) \<in> set (top_links b row) \<or>
      (length (top_links b row) = TOPK_PER_BIOMARKER \<and>
       (\<forall>e \<in> set (top_links b row). \<bar>v\<bar> \<le> e_score e)))"
proof (intro conjI)
  show "rows_out n bio_z dep_z
     = concat (map (\<lambda>(b, bcol). top_links b (corr_row n bcol dep_z)) bio_z)"
    by (simp add: rows_out_unbatched block_rows_def corr_block_def comp_def split_def)
  show "length (top_links b row) \<le> TOPK_PER_BIOMARKER"
    by (rule top_links_length)
  show "sorted (map (\<lambda>e. - e_score e) (top_links b row))"
    by (rule top_links_desc)
  show "\<forall>e \<in> set (top_links b row).
      e_biomarker e = b \<and> MIN_ABS_CORR \<le> e_score e \<and>
      (\<exists>v. (e_dependency e, v) \<in> set row \<and> e_score e = \<bar>v\<bar>)"
    using top_links_origin by blast
  show "\<forall>(d, v) \<in> set row. MIN_ABS_CORR \<le> \<bar>v\<bar> \<longrightarrow>
      (b, d, \<bar>v\<bar>) \<in> set (top_links b row) \<or>
      (length (top_links b row) = TOPK_PER_BIOMARKER \<and>
       (\<forall>e \<in> set (top_links b row). \<bar>v\<bar> \<le> e_score e))"
    using top_links_complete by blast
qed

theorem top_links_topk_by_abs_witness:
  "top_links ''b'' [(''d1'', 0.9), (''d2'', - 0.85), (''d3'', 0.2), (''d4'', 0.05)]
     = [(''b'', ''d1'', 0.9), (''b'', ''d2'', 0.85), (''b'', ''d3'', 0.2)]
   \<and> MIN_ABS_CORR \<le> \<bar>- 0.85 :: real\<bar>
   \<and> (''b'', ''d2'', \<bar>- 0.85\<bar>)
        \<in> set (top_links ''b'' [(''d1'', 0.9), (''d2'', - 0.85), (''d3'', 0.2), (''d4'', 0.05)])
   \<and> length (top_links ''b'' [(''d1'', 0.9), (''d2'', - 0.85), (''d3'', 0.2), (''d4'', 0.05)])
        \<le> TOPK_PER_BIOMARKER"
proof -
  let ?row = "[(''d1'', 0.9), (''d2'', - 0.85), (''d3'', 0.2), (''d4'', 0.05 :: real)]"
  have ev: "top_links ''b'' ?row = [(''b'', ''d1'', 0.9), (''b'', ''d2'', 0.85), (''b'', ''d3'', 0.2)]"
    by (simp add: top_links_def series_abs_def nlargest_def TOPK_PER_BIOMARKER_def
        MIN_ABS_CORR_def)
  have big: "MIN_ABS_CORR \<le> \<bar>- 0.85 :: real\<bar>"
    by (simp add: MIN_ABS_CORR_def)
  have mem: "(''d2'', - 0.85) \<in> set ?row" by simp
  from top_links_topk_by_abs [of 1 "[]" "[]" "''b''" ?row] mem big ev
  show ?thesis by (simp add: TOPK_PER_BIOMARKER_def)
qed

text \<open>
  Where the claim as written fails: a biomarker whose correlation with the one
  dependency is \<open>-1\<close> is recorded with the score \<open>1\<close>; the signed value is not
  in the output.
\<close>

theorem top_links_signed_counterexample:
  "corr_row 2 [1, -1] [(''d'', [-1, 1])] = [(''d'', -1)]
   \<and> rows_out 2 [(''b'', [1, -1])] [(''d'', [-1, 1])] = [(''b'', ''d'', 1)]
   \<and> (''b'', ''d'', -1) \<notin> set (rows_out 2 [(''b'', [1, -1])] [(''d'', [-1, 1])])"
  by (simp add: rows_out_example corr_row_def dot_def)

text \<open>
  Claim C6.  Every row of the frame the scorer writes has an importance score
  in the half-open interval \<open>(0, 1]\<close>, after the division by the maximum of the
  row's dependency group.
\<close>

theorem scorer_scores_in_unit_interval:
  "correlation_scorer common_models bio_z dep_z = Inr out_df \<Longrightarrow>
     \<forall>e \<in> set out_df. 0 < e_score e \<and> e_score e \<le> 1"
proof
  fix e
  assume run: "correlation_scorer common_models bio_z dep_z = Inr out_df"
    and e: "e \<in> set out_df"
  let ?rows = "rows_out (real (length common_models)) bio_z dep_z"
  from run have out: "out_df = renormalize ?rows"
    by (simp add: correlation_scorer_def split: if_splits)
  have "\<forall>r \<in> set ?rows. MIN_ABS_CORR \<le> e_score r"
    using rows_out_score by blast
  then show "0 < e_score e \<and> e_score e \<le> 1"
    using e unfolding out by (rule renormalized_in_unit)
qed


theorem scorer_scores_in_unit_interval_witness:
  "correlation_scorer [''ACH-000001'', ''ACH-000002''] [(''b'', [1, -1])] [(''d'', [-1, 1])]
     = Inr [(''b'', ''d'', 1)]
   \<and> 0 < e_score (''b'', ''d'', 1) \<and> e_score (''b'', ''d'', 1) \<le> 1"
proof -
  have run: "correlation_scorer [''ACH-000001'', ''ACH-000002''] [(''b'', [1, -1])] [(''d'', [-1, 1])]
     = Inr [(''b'', ''d'', 1)]"
    by (simp add: correlation_scorer_def rows_out_example renormalize_def group_scores_def
        e_score_def e_dependency_def renorm_divisor_def)
  from scorer_scores_in_unit_interval [OF run] run show ?thesis by simp
qed

text \<open>
  Claim C10.  The divisor of the renormalisation is never zero, for any group of
  values.  A non-empty group whose values are all at least \<open>MIN_ABS_CORR\<close> has a
  positive maximum and is divided by that maximum, not by the substitute
  \<open>1.0\<close>.  Every dependency group of the rows the scorer collects is such a
  group: its values are absolute values of at least \<open>MIN_ABS_CORR\<close>.
\<close>

theorem renorm_divisor_never_zero:
  "renorm_divisor xs \<noteq> 0 \<and>
   (xs \<noteq> [] \<and> (\<forall>x \<in> set xs. MIN_ABS_CORR \<le> x) \<longrightarrow>
      0 < series_max xs \<and> renorm_divisor xs = series_max xs) \<and>
   (\<forall>e \<in> set (rows_out n bio_z dep_z).
      (\<forall>x \<in> set (group_scores (e_dependency e) (rows_out n bio_z dep_z)).
         MIN_ABS_CORR \<le> \<bar>x\<bar>) \<and>
      0 < series_max (group_scores (e_dependency e) (rows_out n bio_z dep_z)) \<and>
      renorm_divisor (group_scores (e_dependency e) (rows_out n bio_z dep_z))
        = series_max (group_scores (e_dependency e) (rows_out n bio_z dep_z)))"
proof -
  have total: "renorm_divisor xs \<noteq> 0"
    using renorm_divisor_pos [of xs] by simp
  have gen: "0 < series_max ys \<and> renorm_divisor ys = series_max ys"
    if h: "ys \<noteq> []" "\<forall>x \<in> set ys. MIN_ABS_CORR \<le> x" for ys
  proof -
    from h(1) have "series_max ys \<in> set ys" by (rule series_max_mem)
    with h(2) have "MIN_ABS_CORR \<le> series_max ys" by blast
    then have "0 < series_max ys" by (simp add: MIN_ABS_CORR_def)
    then show ?thesis by (simp add: renorm_divisor_def)
  qed
  have pipe: "(\<forall>x \<in> set (group_scores (e_dependency e) (rows_out n bio_z dep_z)).
         MIN_ABS_CORR \<le> \<bar>x\<bar>) \<and>
      0 < series_max (group_scores (e_dependency e) (rows_out n bio_z dep_z)) \<and>
      renorm_divisor (group_scores (e_dependency e) (rows_out n bio_z dep_z))
        = series_max (group_scores (e_dependency e) (rows_out n bio_z dep_z))"
    if e: "e \<in> set (rows_out n bio_z dep_z)" for e
  proof -
    let ?g = "group_scores (e_dependency e) (rows_out n bio_z dep_z)"
    have ne: "?g \<noteq> []" using e by (rule group_scores_nonempty)
    have low: "\<forall>x \<in> set ?g. MIN_ABS_CORR \<le> x"
      using rows_out_score group_scores_lower by blast
    then have "\<forall>x \<in> set ?g. MIN_ABS_CORR \<le> \<bar>x\<bar>" by fastforce
    with gen [OF ne low] show ?thesis by blast
  qed
  from total gen pipe show ?thesis by blast
qed

theorem renorm_divisor_never_zero_witness:
  "renorm_divisor [0.5, 0.2] \<noteq> 0 \<and> 0 < series_max [0.5, 0.2]
   \<and> renorm_divisor [0.5, 0.2] = series_max [0.5, 0.2]
   \<and> (''b'', ''d'', 1) \<in> set (rows_out 2 [(''b'', [1, -1])] [(''d'', [-1, 1])])
   \<and> renorm_divisor (group_scores ''d'' (rows_out 2 [(''b'', [1, -1])] [(''d'', [-1, 1])]))
        = series_max (group_scores ''d'' (rows_out 2 [(''b'', [1, -1])] [(''d'', [-1, 1])]))"
proof -
  have h: "[0.5, 0.2] \<noteq> [] \<and> (\<forall>x \<in> set [0.5, 0.2 :: real]. MIN_ABS_CORR \<le> x)"
    by (simp add: MIN_ABS_CORR_def)
  have m: "(''b'', ''d'', 1) \<in> set (rows_out 2 [(''b'', [1, -1])] [(''d'', [-1, 1])])"
    by (simp add: rows_out_example)
  have d: "e_dependency (''b'', ''d'', 1::real) = ''d''"
    by (simp add: e_dependency_def)
  from renorm_divisor_never_zero [of "[0.5, 0.2]" 2 "[(''b'', [1, -1])]" "[(''d'', [-1, 1])]"]
  have a: "renorm_divisor [0.5, 0.2] \<noteq> 0"
    and b: "[0.5, 0.2] \<noteq> [] \<and> (\<forall>x \<in> set [0.5, 0.2 :: real]. MIN_ABS_CORR \<le> x) \<longrightarrow>
      0 < series_max [0.5, 0.2] \<and> renorm_divisor [0.5, 0.2] = series_max [0.5, 0.2]"
    and c: "\<forall>e \<in> set (rows_out 2 [(''b'', [1, -1])] [(''d'', [-1, 1])]).
      renorm_divisor (group_scores (e_dependency e) (rows_out 2 [(''b'', [1, -1])] [(''d'', [-1, 1])]))
        = series_max (group_scores (e_dependency e) (rows_out 2 [(''b'', [1, -1])] [(''d'', [-1, 1])]))"
    by blast+
  from c m d have "renorm_divisor (group_scores ''d'' (rows_out 2 [(''b'', [1, -1])] [(''d'', [-1, 1])]))
        = series_max (group_scores ''d'' (rows_out 2 [(''b'', [1, -1])] [(''d'', [-1, 1])]))"
    by force
  with a b h m show ?thesis by blast
qed

text \<open>
  Claim C1.  The frame the edge loop runs over is obtained from the normalised
  frame by the minimum-weight filter first (on the scores the normalisation
  yields, the filter \<open>score >= EDGE_MIN\<close> is the filter on the absolute weight),
  then the top-K per dependency, then the top-K per biomarker.  Each truncation
  keeps, of every group, the first K rows of the group sorted by descending
  score with ties in frame order, and returns its rows sorted by name and
  descending score.  So for every edge list the three steps leave at most
  \<open>TOPK_PER_DEP\<close> rows per dependency and at most \<open>TOPK_PER_BM\<close> rows per
  biomarker, hence at most that many distinct biomarkers linked to a dependency
  and distinct dependencies linked to a biomarker.
\<close>

theorem sparsify_order_and_caps:
  "sparsified_features features_df dep_names
     = topk_per_biomarker (topk_per_dependency
         (filter (\<lambda>r. f_le (Finite EDGE_MIN) (f_abs (row_score r)))
            (normalize_per_dependency (filtered_features features_df dep_names)))) \<and>
   sparsify df = topk_per_biomarker (topk_per_dependency (drop_small df)) \<and>
   drop_small df = filter (\<lambda>r. f_le (Finite EDGE_MIN) (row_score r)) df \<and>
   filter (\<lambda>r. row_dependency r = d) (topk_per_dependency df)
     = take TOPK_PER_DEP
         (sort_key (\<lambda>r. desc_key (row_score r)) (filter (\<lambda>r. row_dependency r = d) df)) \<and>
   filter (\<lambda>r. row_biomarker r = b) (topk_per_biomarker df)
     = take TOPK_PER_BM
         (sort_key (\<lambda>r. desc_key (row_score r)) (filter (\<lambda>r. row_biomarker r = b) df)) \<and>
   sorted (map (\<lambda>r. (row_dependency r, desc_key (row_score r))) (topk_per_dependency df)) \<and>
   sorted (map (\<lambda>r. (row_biomarker r, desc_key (row_score r))) (topk_per_biomarker df)) \<and>
   length (filter (\<lambda>r. row_dependency r = d) (sparsify df)) \<le> TOPK_PER_DEP \<and>
   length (filter (\<lambda>r. row_biomarker r = b) (sparsify df)) \<le> TOPK_PER_BM \<and>
   card (row_biomarker ` set (filter (\<lambda>r. row_dependency r = d) (sparsify df)))
     \<le> TOPK_PER_DEP \<and>
   card (row_dependency ` set (filter (\<lambda>r. row_biomarker r = b) (sparsify df)))
     \<le> TOPK_PER_BM"
proof (intro conjI)
  let ?N = "normalize_per_dependency (filtered_features features_df dep_names)"
  have pos: "\<forall>r \<in> set (filtered_features features_df dep_names).
      row_score r = PlusInf \<or> (\<exists>x. row_score r = Finite x \<and> 0 < x)"
    using filtered_features_score by blast
  have "drop_small ?N = filter (\<lambda>r. f_le (Finite EDGE_MIN) (f_abs (row_score r))) ?N"
    unfolding drop_small_def
  proof (rule filter_cong [OF refl])
    fix r assume "r \<in> set ?N"
    with pos have "f_abs (row_score r) = row_score r" by (rule normalized_abs)
    then show "f_le (Finite EDGE_MIN) (row_score r)
        = f_le (Finite EDGE_MIN) (f_abs (row_score r))" by simp
  qed
  then show "sparsified_features features_df dep_names
     = topk_per_biomarker (topk_per_dependency
         (filter (\<lambda>r. f_le (Finite EDGE_MIN) (f_abs (row_score r))) ?N))"
    by (simp add: sparsified_features_def sparsify_def)
  show "sparsify df = topk_per_biomarker (topk_per_dependency (drop_small df))"
    by (simp add: sparsify_def)
  show "drop_small df = filter (\<lambda>r. f_le (Finite EDGE_MIN) (row_score r)) df"
    by (simp add: drop_small_def)
  show "filter (\<lambda>r. row_dependency r = d) (topk_per_dependency df)
     = take TOPK_PER_DEP
         (sort_key (\<lambda>r. desc_key (row_score r)) (filter (\<lambda>r. row_dependency r = d) df))"
    by (rule topk_per_dependency_group)
  show "filter (\<lambda>r. row_biomarker r = b) (topk_per_biomarker df)
     = take TOPK_PER_BM
         (sort_key (\<lambda>r. desc_key (row_score r)) (filter (\<lambda>r. row_biomarker r = b) df))"
    by (rule topk_per_biomarker_group)
  show "sorted (map (\<lambda>r. (row_dependency r, desc_key (row_score r))) (topk_per_dependency df))"
    by (rule topk_per_dependency_sorted)
  show "sorted (map (\<lambda>r. (row_biomarker r, desc_key (row_score r))) (topk_per_biomarker df))"
    by (rule topk_per_biomarker_sorted)
  have "length (filter (\<lambda>r. row_dependency r = d) (sparsify df))
          \<le> length (filter (\<lambda>r. row_dependency r = d) (topk_per_dependency (drop_small df)))"
    unfolding sparsify_def by (rule topk_per_biomarker_shrinks)
  also have "\<dots> \<le> TOPK_PER_DEP" by (rule topk_per_dependency_count)
  finally show dep_cap:
    "length (filter (\<lambda>r. row_dependency r = d) (sparsify df)) \<le> TOPK_PER_DEP" .
  show bm_cap: "length (filter (\<lambda>r. row_biomarker r = b) (sparsify df)) \<le> TOPK_PER_BM"
    unfolding sparsify_def by (rule topk_per_biomarker_count)
  show "card (row_biomarker ` set (filter (\<lambda>r. row_dependency r = d) (sparsify df)))
      \<le> TOPK_PER_DEP"
    by (rule order_trans [OF partner_count dep_cap])
  show "card (row_dependency ` set (filter (\<lambda>r. row_biomarker r = b) (sparsify df)))
      \<le> TOPK_PER_BM"
    by (rule order_trans [OF partner_count bm_cap])
qed


text \<open>
  Both caps at work: of 251 rows of one dependency the 250 strongest stay and the
  weakest one goes, though it passes the minimum-weight filter; of 151 rows of
  one biomarker 150 stay.
\<close>

theorem sparsify_order_and_caps_witness:
  "filter (\<lambda>r. row_dependency r = ''d'')
     (topk_per_dependency (drop_small
        ((''weak'', ''d'', Finite 0.02)
           # map (\<lambda>i. (replicate (Suc i) CHR ''b'', ''d'', Finite 1)) [0..<250])))
     = map (\<lambda>i. (replicate (Suc i) CHR ''b'', ''d'', Finite 1)) [0..<250]
   \<and> (''weak'', ''d'', Finite 0.02)
        \<notin> set (sparsify ((''weak'', ''d'', Finite 0.02)
               # map (\<lambda>i. (replicate (Suc i) CHR ''b'', ''d'', Finite 1)) [0..<250]))
   \<and> length (filter (\<lambda>r. row_biomarker r = ''b'')
        (sparsify (map (\<lambda>i. (''b'', replicate (Suc i) CHR ''d'', Finite 1)) [0..<151])))
        = TOPK_PER_BM"
proof -
  define weak :: feature_row where "weak = (''weak'', ''d'', Finite 0.02)"
  define strong :: "feature_row list"
    where "strong = map (\<lambda>i. (replicate (Suc i) CHR ''b'', ''d'', Finite 1)) [0..<250]"
  define DF where "DF = weak # strong"
  define DFB :: "feature_row list"
    where "DFB = map (\<lambda>i. (''b'', replicate (Suc i) CHR ''d'', Finite 1)) [0..<151]"
  define k :: "feature_row \<Rightarrow> nat \<times> real" where "k = (\<lambda>r. desc_key (row_score r))"
  have strong_rows: "\<forall>r \<in> set strong. row_dependency r = ''d'' \<and> row_score r = Finite 1"
    by (auto simp: strong_def row_dependency_def row_score_def)
  have weak_row: "row_dependency weak = ''d''" "row_score weak = Finite 0.02"
    by (simp_all add: weak_def row_dependency_def row_score_def)
  have len: "length strong = 250" by (simp add: strong_def)
  have small: "drop_small DF = DF"
    unfolding drop_small_def DF_def using strong_rows weak_row
    by (auto simp: EDGE_MIN_def filter_id_conv)
  have group: "filter (\<lambda>r. row_dependency r = ''d'') DF = DF"
    unfolding DF_def using strong_rows weak_row by (auto simp: filter_id_conv)
  have "sort_key k strong = strong"
    by (rule sort_key_const [where c = "(1, - 1)"]) (use strong_rows in \<open>simp add: k_def\<close>)
  moreover have "insort_key k weak strong = strong @ [weak]"
    by (rule insort_key_last) (use strong_rows weak_row in \<open>simp add: k_def less_prod_def\<close>)
  ultimately have sorted: "sort_key k DF = strong @ [weak]"
    by (simp add: DF_def)
  from sparsify_order_and_caps [of "[]" "[]" "drop_small DF" "''d''" "''b''"]
  have "filter (\<lambda>r. row_dependency r = ''d'') (topk_per_dependency (drop_small DF))
     = take TOPK_PER_DEP (sort_key (\<lambda>r. desc_key (row_score r))
         (filter (\<lambda>r. row_dependency r = ''d'') (drop_small DF)))"
    by blast
  then have A: "filter (\<lambda>r. row_dependency r = ''d'') (topk_per_dependency (drop_small DF)) = strong"
    unfolding small group using sorted len by (simp add: k_def TOPK_PER_DEP_def)
  have B: "weak \<notin> set (sparsify DF)"
  proof
    assume "weak \<in> set (sparsify DF)"
    then have "weak \<in> set (topk_per_dependency (drop_small DF))"
      unfolding sparsify_def using topk_per_biomarker_subset by blast
    with weak_row have "weak \<in> set (filter (\<lambda>r. row_dependency r = ''d'')
        (topk_per_dependency (drop_small DF)))" by simp
    then have "weak \<in> set strong" by (simp only: A)
    with strong_rows weak_row show False by auto
  qed
  have b_rows: "\<forall>r \<in> set DFB. row_biomarker r = ''b'' \<and> row_score r = Finite 1"
    by (auto simp: DFB_def row_biomarker_def row_score_def)
  have smallB: "drop_small DFB = DFB"
    unfolding drop_small_def using b_rows by (auto simp: EDGE_MIN_def filter_id_conv)
  have "distinct (map row_dependency DFB)"
    using replicate_names_distinct [of "CHR ''d''" 151]
    by (simp add: DFB_def row_dependency_def comp_def)
  then have one: "\<forall>d. length (filter (\<lambda>r. row_dependency r = d) DFB) \<le> 1"
    by (intro allI distinct_key_count)
  let ?S = "sort_key (\<lambda>r. (row_dependency r, desc_key (row_score r))) DFB"
  have "\<forall>d. length (filter (\<lambda>r. row_dependency r = d) []) + length (filter (\<lambda>r. row_dependency r = d) ?S)
      \<le> TOPK_PER_DEP"
  proof
    fix d
    have "length (filter (\<lambda>r. row_dependency r = d) ?S) = length (filter (\<lambda>r. row_dependency r = d) DFB)"
      by (simp add: filter_sort)
    with one [rule_format, of d]
    show "length (filter (\<lambda>r. row_dependency r = d) []) + length (filter (\<lambda>r. row_dependency r = d) ?S)
      \<le> TOPK_PER_DEP" by (simp add: TOPK_PER_DEP_def)
  qed
  then have keep: "topk_per_dependency DFB = ?S"
    unfolding topk_per_dependency_def groupby_head_def by (rule group_head_keeps_all)
  have "filter (\<lambda>r. row_biomarker r = ''b'') DFB = DFB"
    using b_rows by (auto simp: filter_id_conv)
  then have n: "length (filter (\<lambda>r. row_biomarker r = ''b'') (topk_per_dependency DFB)) = 151"
    unfolding keep by (simp add: filter_sort DFB_def)
  from sparsify_order_and_caps [of "[]" "[]" "topk_per_dependency DFB" "''d''" "''b''"]
  have "filter (\<lambda>r. row_biomarker r = ''b'') (topk_per_biomarker (topk_per_dependency DFB))
     = take TOPK_PER_BM (sort_key (\<lambda>r. desc_key (row_score r))
         (filter (\<lambda>r. row_biomarker r = ''b'') (topk_per_dependency DFB)))"
    by blast
  then have "length (filter (\<lambda>r. row_biomarker r = ''b'') (topk_per_biomarker (topk_per_dependency DFB)))
      = TOPK_PER_BM"
    using n by (simp add: TOPK_PER_BM_def)
  then have C: "length (filter (\<lambda>r. row_biomarker r = ''b'') (sparsify DFB)) = TOPK_PER_BM"
    by (simp add: sparsify_def smallB)
  from A B C show ?thesis
    unfolding DF_def weak_def strong_def DFB_def by blast
qed

text \<open>
  Claim C8, where the code departs from it.  A score of \<open>+inf\<close> passes the
  positive-weight filter; the maximum of its dependency group is \<open>+inf\<close>, the
  division turns the row itself into NaN and the other rows of the group into
  zero, so the maximum after the normalisation is not 1, and the \<open>EDGE_MIN\<close>
  filter removes the whole group: the dependency had two edges and is left with
  none.
\<close>

theorem normalization_loses_group_at_infinity:
  "filtered_features [(''b1'', ''d'', PlusInf), (''b2'', ''d'', Finite 0.5)] [''d'']
     = [(''b1'', ''d'', PlusInf), (''b2'', ''d'', Finite 0.5)]
   \<and> f_less (Finite 0) (row_score (''b1'', ''d'', PlusInf))
   \<and> f_less (Finite 0) (row_score (''b2'', ''d'', Finite 0.5))
   \<and> f_max (group_values ''d'' [(''b1'', ''d'', PlusInf), (''b2'', ''d'', Finite 0.5)]) = PlusInf
   \<and> normalize_per_dependency [(''b1'', ''d'', PlusInf), (''b2'', ''d'', Finite 0.5)]
     = [(''b1'', ''d'', NaN), (''b2'', ''d'', Finite 0)]
   \<and> f_max (group_values ''d''
         (normalize_per_dependency [(''b1'', ''d'', PlusInf), (''b2'', ''d'', Finite 0.5)]))
     = Finite 0
   \<and> topk_per_dependency (drop_small
         (normalize_per_dependency [(''b1'', ''d'', PlusInf), (''b2'', ''d'', Finite 0.5)])) = []
   \<and> sparsified_features [(''b1'', ''d'', PlusInf), (''b2'', ''d'', Finite 0.5)] [''d''] = []"
proof -
  note ex = infinite_score_example
  have f: "filtered_features [(''b1'', ''d'', PlusInf), (''b2'', ''d'', Finite 0.5)] [''d'']
     = [(''b1'', ''d'', PlusInf), (''b2'', ''d'', Finite 0.5)]"
    using ex by blast
  have n: "normalize_per_dependency [(''b1'', ''d'', PlusInf), (''b2'', ''d'', Finite 0.5)]
     = [(''b1'', ''d'', NaN), (''b2'', ''d'', Finite 0)]"
    using ex by blast
  have t: "topk_per_dependency [] = []"
    by (simp add: topk_per_dependency_def groupby_head_def)
  have b: "topk_per_biomarker [] = []"
    by (simp add: topk_per_biomarker_def groupby_head_def)
  have d: "drop_small [(''b1'', ''d'', NaN), (''b2'', ''d'', Finite 0)] = []"
    using ex by blast
  have s: "sparsified_features [(''b1'', ''d'', PlusInf), (''b2'', ''d'', Finite 0.5)] [''d''] = []"
    by (simp only: sparsified_features_def sparsify_def f n d t b)
  have p: "f_less (Finite 0) (row_score (''b1'', ''d'', PlusInf))"
    "f_less (Finite 0) (row_score (''b2'', ''d'', Finite 0.5))"
    by (simp_all add: row_score_def f_less_def less_prod_def)
  have m: "f_max (group_values ''d'' [(''b1'', ''d'', PlusInf), (''b2'', ''d'', Finite 0.5)]) = PlusInf"
    "f_max (group_values ''d'' [(''b1'', ''d'', NaN), (''b2'', ''d'', Finite 0)]) = Finite 0"
    using ex by blast+
  show ?thesis
    unfolding n d t using f n p m s by blast
qed

text \<open>
  Claim C2, where the code departs from it.  In community_detection.py the name
  \<open>X\<close> is a biomarker of the feature table and a listed dependency: the guard
  lets the row through, the graph gets the self-loop on \<open>X\<close>, and the node is
  left with the class \<open>dependency\<close> only.  In network_build.py no guard is
  applied: the row \<open>(b, d)\<close> becomes an edge although \<open>d\<close> is not a declared
  dependency, and \<open>d\<close> enters the graph as a node without a class.
\<close>

theorem graph_builder_breaks_bipartition:
  "g_adj (network_build [(''X'', ''X'', Finite 0.5)] [''X'']) ''X'' ''X'' = Some (Finite 1)
   \<and> ''X'' \<in> set (biomarkers_of [(''X'', ''X'', Finite 0.5)] [''X''])
   \<and> ''X'' \<in> set [''X'']
   \<and> g_node (network_build [(''X'', ''X'', Finite 0.5)] [''X'']) ''X'' = Some (Some Dependency)
   \<and> g_adj (network_build_py [(''b'', ''d'', Finite 0.5)] Map.empty []) ''b'' ''d''
        = Some (Finite 0.5)
   \<and> ''d'' \<notin> set (unique [])
   \<and> g_node (network_build_py [(''b'', ''d'', Finite 0.5)] Map.empty []) ''d'' = Some None"
  using network_build_collision network_build_py_unguarded
  by (simp add: unique_def)

text \<open>
  Claim C7.  A graph with at least one node gets a table.  Provided the
  communities returned by the library cover exactly the nodes of the graph, the
  table has one row per node: the node column has no duplicates and is the node
  set, so every node has exactly one community id; each id is a non-negative
  integer, the index of a community that contains the node.
\<close>

theorem community_assignment_total:
  "(number_of_nodes G \<noteq> 0 \<longrightarrow>
      community_detection greedy G = Inr (partition_of (greedy G))) \<and>
   (community_detection greedy G = Inr rows \<and> set (concat (greedy G)) = dom (g_node G) \<longrightarrow>
      distinct (map fst rows) \<and> set (map fst rows) = dom (g_node G) \<and>
      (\<forall>n \<in> dom (g_node G). \<exists>!i. (n, i) \<in> set rows) \<and>
      (\<forall>(n, i) \<in> set rows.
         0 \<le> i \<and> i < int (length (greedy G)) \<and> n \<in> set (greedy G ! nat i)))"
proof (intro conjI impI)
  assume "number_of_nodes G \<noteq> 0"
  then show "community_detection greedy G = Inr (partition_of (greedy G))"
    by (simp add: community_detection_def)
next
  assume h: "community_detection greedy G = Inr rows \<and> set (concat (greedy G)) = dom (g_node G)"
  then have rows: "rows = partition_of (greedy G)"
    by (simp add: community_detection_def split: if_splits)
  from h have cover: "set (concat (greedy G)) = dom (g_node G)" by blast
  show dist: "distinct (map fst rows)"
    unfolding rows by (rule partition_of_distinct)
  show keys: "set (map fst rows) = dom (g_node G)"
    unfolding rows partition_of_keys by (rule cover)
  show "\<forall>n \<in> dom (g_node G). \<exists>!i. (n, i) \<in> set rows"
  proof
    fix n assume "n \<in> dom (g_node G)"
    with keys have "n \<in> set (map fst rows)" by simp
    then obtain i where i: "(n, i) \<in> set rows" by auto
    show "\<exists>!i. (n, i) \<in> set rows"
    proof (rule ex1I)
      show "(n, i) \<in> set rows" by (rule i)
      fix j assume "(n, j) \<in> set rows"
      from dist this i show "j = i" by (rule eq_key_imp_eq_value)
    qed
  qed
  show "\<forall>(n, i) \<in> set rows.
         0 \<le> i \<and> i < int (length (greedy G)) \<and> n \<in> set (greedy G ! nat i)"
    unfolding rows using partition_of_entry by blast
qed

theorem community_assignment_total_witness:
  "community_detection (\<lambda>G. [[''d''], [''b1'', ''b2'']])
      (add_nodes_from [''d''] Dependency (add_nodes_from [''b1'', ''b2''] Biomarker empty_graph))
     = Inr [(''d'', 0), (''b1'', 1), (''b2'', 1)]
   \<and> set (concat [[''d''], [''b1'', ''b2'']])
       = dom (g_node (add_nodes_from [''d''] Dependency
                (add_nodes_from [''b1'', ''b2''] Biomarker empty_graph)))
   \<and> distinct (map fst [(''d'', 0 :: int), (''b1'', 1), (''b2'', 1)])"
proof -
  let ?G = "add_nodes_from [''d''] Dependency (add_nodes_from [''b1'', ''b2''] Biomarker empty_graph)"
  have dom: "dom (g_node ?G) = {''d'', ''b1'', ''b2''}"
    by (auto simp: add_nodes_from_def empty_graph_def)
  have run: "community_detection (\<lambda>G. [[''d''], [''b1'', ''b2'']]) ?G
     = Inr [(''d'', 0), (''b1'', 1), (''b2'', 1)]"
    by (simp add: community_detection_def number_of_nodes_def dom partition_of_def
        assign_communities_def enumerate_eq_zip)
  have cover: "set (concat [[''d''], [''b1'', ''b2'']]) = dom (g_node ?G)"
    unfolding dom by auto
  from community_assignment_total [of ?G "\<lambda>G. [[''d''], [''b1'', ''b2'']]"
      "[(''d'', 0), (''b1'', 1), (''b2'', 1)]"] run cover
  have "distinct (map fst [(''d'', 0 :: int), (''b1'', 1), (''b2'', 1)])" by blast
  with run cover show ?thesis by blast
qed

section \<open>Claims about the Table Merger\<close>

text \<open>
  Claim C3, as the code has it.  A source table with no rows is left out of the
  merge, like a missing file.  When the run succeeds and the source tables that
  have rows are each keyed by distinct model ids, the rows of the merged table
  are exactly the ids common to those tables, each once; there is at least one,
  and there are at most as many as in any of those tables.
\<close>

theorem merged_rows_are_common_ids:
  "preprocess parse files = (None, written) \<and>
   (\<forall>labels \<in> set (source_ids files). distinct labels) \<longrightarrow>
     (\<exists>out rest.
        written = (''outputs/merged_biomarkers.csv'', MergedTable out) # rest \<and>
        set (ids out) = (\<Inter>labels \<in> set (source_ids files). set labels) \<and>
        distinct (ids out) \<and> ids out \<noteq> [] \<and> [] \<notin> set (source_ids files) \<and>
        (\<forall>labels \<in> set (source_ids files). length (ids out) \<le> length labels))"
proof
  assume h: "preprocess parse files = (None, written) \<and>
    (\<forall>labels \<in> set (source_ids files). distinct labels)"
  then obtain tables merged out rest where
    c: "collect_tables parse files = Inr tables"
    and m: "merge_tables tables = Inr merged"
    and r: "reset_index merged = Inr out"
    and w: "written = (''outputs/merged_biomarkers.csv'', MergedTable out) # rest"
    by (blast elim: preprocess_success)
  from collect_tables_result [of parse files] c
  have src: "map (\<lambda>(l, t). index t) tables = source_ids files" by auto
  then have src_set: "set (source_ids files) = (\<lambda>(l, t). index t) ` set tables"
    by (metis set_map)
  from h have "\<forall>labels \<in> set (source_ids files). distinct labels" by blast
  then have dist: "\<forall>(l, t) \<in> set tables. distinct (index t)"
    unfolding src_set by auto
  have ids: "ids out = index merged" using r by (rule reset_index_ids)
  have "set (ids out) = (\<Inter>(l, t) \<in> set tables. set (index t))"
    unfolding ids using m dist by (rule merge_tables_rows(1))
  also have "\<dots> = (\<Inter>labels \<in> set (source_ids files). set labels)"
    unfolding src_set by auto
  finally have a: "set (ids out) = (\<Inter>labels \<in> set (source_ids files). set labels)" .
  have b: "distinct (ids out)"
    unfolding ids using m dist by (rule merge_tables_rows(2))
  have c': "ids out \<noteq> []"
    unfolding ids using m by (rule merge_tables_nonempty)
  have "\<forall>(l, t) \<in> set tables. n_rows merged \<le> n_rows t"
    using m dist by (rule merge_tables_rows(3))
  then have d: "\<forall>labels \<in> set (source_ids files). length (ids out) \<le> length labels"
    unfolding src_set ids n_rows_def by auto
  from w a b c' d source_ids_nonempty [of files]
  show "\<exists>out rest.
        written = (''outputs/merged_biomarkers.csv'', MergedTable out) # rest \<and>
        set (ids out) = (\<Inter>labels \<in> set (source_ids files). set labels) \<and>
        distinct (ids out) \<and> ids out \<noteq> [] \<and> [] \<notin> set (source_ids files) \<and>
        (\<forall>labels \<in> set (source_ids files). length (ids out) \<le> length labels)"
    by blast
qed


theorem merged_rows_are_common_ids_witness:
  "source_ids
     \<lparr>expression_csv = CsvFile \<lparr>index_name = None, index = [IntNum 0, IntNum 1, IntNum 2],
          columns = [(''ModelID'', [Str ''A'', Str ''B'', Str ''C'']),
                     (''TP53'', [Num (Finite 1.5), Num (Finite 2), Num NaN])]\<rparr>,
      mutation_damaging_csv = CsvFile \<lparr>index_name = None, index = [IntNum 0, IntNum 1, IntNum 2],
          columns = [(''ModelID'', [Str ''B'', Str ''C'', Str ''D'']),
                     (''KRAS'', [IntNum 0, IntNum 2, IntNum 1])]\<rparr>,
      mutation_hotspot_csv = NoFile, cnv_csv = NoFile, dependency_csv = NoFile\<rparr>
     = [[Str ''A'', Str ''B'', Str ''C''], [Str ''B'', Str ''C'', Str ''D'']]
   \<and> distinct [Str ''A'', Str ''B'', Str ''C''] \<and> distinct [Str ''B'', Str ''C'', Str ''D'']
   \<and> (\<exists>out rest.
        snd (preprocess (\<lambda>s. F64 NaN)
          \<lparr>expression_csv = CsvFile \<lparr>index_name = None, index = [IntNum 0, IntNum 1, IntNum 2],
              columns = [(''ModelID'', [Str ''A'', Str ''B'', Str ''C'']),
                         (''TP53'', [Num (Finite 1.5), Num (Finite 2), Num NaN])]\<rparr>,
           mutation_damaging_csv = CsvFile \<lparr>index_name = None, index = [IntNum 0, IntNum 1, IntNum 2],
              columns = [(''ModelID'', [Str ''B'', Str ''C'', Str ''D'']),
                         (''KRAS'', [IntNum 0, IntNum 2, IntNum 1])]\<rparr>,
           mutation_hotspot_csv = NoFile, cnv_csv = NoFile, dependency_csv = NoFile\<rparr>)
          = (''outputs/merged_biomarkers.csv'', MergedTable out) # rest
        \<and> ids out = [Str ''B'', Str ''C'']
        \<and> set (ids out) = set [Str ''A'', Str ''B'', Str ''C''] \<inter> set [Str ''B'', Str ''C'', Str ''D''])"
proof -
  let ?files = "\<lparr>expression_csv = CsvFile \<lparr>index_name = None, index = [IntNum 0, IntNum 1, IntNum 2],
          columns = [(''ModelID'', [Str ''A'', Str ''B'', Str ''C'']),
                     (''TP53'', [Num (Finite 1.5), Num (Finite 2), Num NaN])]\<rparr>,
      mutation_damaging_csv = CsvFile \<lparr>index_name = None, index = [IntNum 0, IntNum 1, IntNum 2],
          columns = [(''ModelID'', [Str ''B'', Str ''C'', Str ''D'']),
                     (''KRAS'', [IntNum 0, IntNum 2, IntNum 1])]\<rparr>,
      mutation_hotspot_csv = NoFile, cnv_csv = NoFile, dependency_csv = NoFile\<rparr>"
  have src: "source_ids ?files
      = [[Str ''A'', Str ''B'', Str ''C''], [Str ''B'', Str ''C'', Str ''D'']]"
    by (simp add: source_ids_def ids_of_def model_ids_def)
  have dist: "\<forall>labels \<in> set (source_ids ?files). distinct labels"
    unfolding src by simp
  obtain written where run: "preprocess (\<lambda>s. F64 NaN) ?files = (None, written)"
    and first: "\<exists>out rest. written = (''outputs/merged_biomarkers.csv'', MergedTable out) # rest
        \<and> ids out = [Str ''B'', Str ''C'']"
    using preprocess_example_common by simp
  from merged_rows_are_common_ids [of "\<lambda>s. F64 NaN" ?files written] run dist
  obtain out rest where w: "written = (''outputs/merged_biomarkers.csv'', MergedTable out) # rest"
    and s: "set (ids out) = (\<Inter>labels \<in> set (source_ids ?files). set labels)"
    by blast
  from first w have i: "ids out = [Str ''B'', Str ''C'']" by auto
  from s have "set (ids out) = set [Str ''A'', Str ''B'', Str ''C''] \<inter> set [Str ''B'', Str ''C'', Str ''D'']"
    unfolding src by simp
  with w i run have "\<exists>out rest.
        snd (preprocess (\<lambda>s. F64 NaN) ?files)
          = (''outputs/merged_biomarkers.csv'', MergedTable out) # rest
        \<and> ids out = [Str ''B'', Str ''C'']
        \<and> set (ids out) = set [Str ''A'', Str ''B'', Str ''C''] \<inter> set [Str ''B'', Str ''C'', Str ''D'']"
    by auto
  with src show ?thesis by simp
qed


text \<open>
  Where the claim as written fails: the expression table has the \<open>ModelID\<close>
  column and no rows, the mutation table has the one model \<open>A\<close>.  No id is common
  to the two input tables and the smaller one has zero rows, yet the merged table
  is written with the row \<open>A\<close>.
\<close>

theorem merged_rows_empty_table_counterexample:
  "model_ids \<lparr>index_name = None, index = [],
          columns = [(''ModelID'', []), (''TP53'', [])]\<rparr> = []
   \<and> preprocess (\<lambda>s. F64 NaN)
     \<lparr>expression_csv = CsvFile \<lparr>index_name = None, index = [],
          columns = [(''ModelID'', []), (''TP53'', [])]\<rparr>,
      mutation_damaging_csv = CsvFile \<lparr>index_name = None, index = [IntNum 0],
          columns = [(''ModelID'', [Str ''A'']), (''KRAS'', [IntNum 1])]\<rparr>,
      mutation_hotspot_csv = NoFile, cnv_csv = NoFile, dependency_csv = NoFile\<rparr>
   = (None,
      [(''outputs/merged_biomarkers.csv'',
        MergedTable \<lparr>id_name = ''ModelID'', ids = [Str ''A''],
          features = [(''KRAS'', [Int8 1])]\<rparr>),
       (''outputs/processed_features.csv'',
        MergedTable \<lparr>id_name = ''ModelID'', ids = [Str ''A''],
          features = [(''KRAS'', [Int8 1])]\<rparr>)])"
  by (simp add: merger_eval model_ids_def enumerate_eq_zip)


text \<open>
  Claim C5, as the code has it.  A source table with no rows is left out of the
  merge, like a missing file.  When a source table that is present has neither a
  \<open>ModelID\<close> column nor an index of that name, the run ends with an error
  and writes nothing.  When no source table has a row, or the source tables that
  have rows share no model id, the run ends with an error and writes nothing.
  A run that ends with an error leaves files only when the dependency file,
  which is read after the merged table is written, cannot be read.
\<close>

theorem preprocess_fails_without_output:
  "(CsvFile df \<in> {expression_csv files, mutation_damaging_csv files,
                   mutation_hotspot_csv files, cnv_csv files} \<and>
    ''ModelID'' \<notin> set (column_names df) \<and> index_name df \<noteq> Some ''ModelID'' \<longrightarrow>
      preprocess parse files = (Some ValueError, []) \<or>
      preprocess parse files = (Some ParserError, [])) \<and>
   (source_ids files = [] \<or> (\<Inter>labels \<in> set (source_ids files). set labels) = {} \<longrightarrow>
      (\<exists>e. preprocess parse files = (Some e, []))) \<and>
   (preprocess parse files = (Some e, written) \<and> dependency_csv files \<noteq> BadFile \<longrightarrow>
      written = [])"
proof (intro conjI impI)
  assume "CsvFile df \<in> {expression_csv files, mutation_damaging_csv files,
                   mutation_hotspot_csv files, cnv_csv files} \<and>
    ''ModelID'' \<notin> set (column_names df) \<and> index_name df \<noteq> Some ''ModelID''"
  then obtain e' where c: "collect_tables parse files = Inl e'"
    using collect_tables_lacks [of df files parse] by blast
  then have "e' = ValueError \<or> e' = ParserError" by (rule collect_tables_error)
  with c show "preprocess parse files = (Some ValueError, []) \<or>
      preprocess parse files = (Some ParserError, [])"
    by (auto simp: preprocess_def)
next
  assume h: "source_ids files = [] \<or> (\<Inter>labels \<in> set (source_ids files). set labels) = {}"
  show "\<exists>e. preprocess parse files = (Some e, [])"
  proof (cases "collect_tables parse files")
    case (Inl e')
    then show ?thesis by (simp add: preprocess_def)
  next
    case (Inr tables)
    from collect_tables_result(1) [OF Inr]
    have src: "map (\<lambda>(l, t). index t) tables = source_ids files" .
    then have src_set: "set (source_ids files) = (\<lambda>(l, t). index t) ` set tables"
      by (metis set_map)
    have "\<exists>e'. merge_tables tables = Inl e'"
    proof (cases "tables = []")
      case True
      then show ?thesis by (simp add: merge_tables_def)
    next
      case False
      with src have "source_ids files \<noteq> []" by auto
      with h have "(\<Inter>labels \<in> set (source_ids files). set labels) = {}" by blast
      then have "(\<Inter>(l, t) \<in> set tables. set (index t)) = {}"
        unfolding src_set by (auto simp: case_prod_beta)
      then show ?thesis by (rule merge_tables_no_common)
    qed
    with Inr show ?thesis by (auto simp: preprocess_def)
  qed
next
  assume "preprocess parse files = (Some e, written) \<and> dependency_csv files \<noteq> BadFile"
  then show "written = []"
    using preprocess_failure_output [of parse files e written] by blast
qed

theorem preprocess_fails_without_output_witness:
  "''ModelID'' \<notin> set (column_names \<lparr>index_name = None, index = [IntNum 0],
          columns = [(''TP53'', [Num (Finite 1)])]\<rparr>)
   \<and> preprocess (\<lambda>s. F64 NaN)
       \<lparr>expression_csv = CsvFile \<lparr>index_name = None, index = [IntNum 0],
            columns = [(''TP53'', [Num (Finite 1)])]\<rparr>,
        mutation_damaging_csv = NoFile,
        mutation_hotspot_csv = NoFile, cnv_csv = NoFile, dependency_csv = NoFile\<rparr>
     = (Some ValueError, [])
   \<and> source_ids
       \<lparr>expression_csv = CsvFile \<lparr>index_name = None, index = [IntNum 0],
            columns = [(''ModelID'', [Str ''A'']), (''TP53'', [Num (Finite 1)])]\<rparr>,
        mutation_damaging_csv = CsvFile \<lparr>index_name = None, index = [IntNum 0],
            columns = [(''ModelID'', [Str ''B'']), (''KRAS'', [IntNum 1])]\<rparr>,
        mutation_hotspot_csv = NoFile, cnv_csv = NoFile, dependency_csv = NoFile\<rparr>
     = [[Str ''A''], [Str ''B'']]
   \<and> set [Str ''A''] \<inter> set [Str ''B''] = {}
   \<and> preprocess (\<lambda>s. F64 NaN)
       \<lparr>expression_csv = CsvFile \<lparr>index_name = None, index = [IntNum 0],
            columns = [(''ModelID'', [Str ''A'']), (''TP53'', [Num (Finite 1)])]\<rparr>,
        mutation_damaging_csv = CsvFile \<lparr>index_name = None, index = [IntNum 0],
            columns = [(''ModelID'', [Str ''B'']), (''KRAS'', [IntNum 1])]\<rparr>,
        mutation_hotspot_csv = NoFile, cnv_csv = NoFile, dependency_csv = NoFile\<rparr>
     = (Some RuntimeError, [])
   \<and> preprocess (\<lambda>s. F64 NaN)
       \<lparr>expression_csv = NoFile, mutation_damaging_csv = NoFile,
        mutation_hotspot_csv = NoFile, cnv_csv = NoFile, dependency_csv = NoFile\<rparr>
     = (Some RuntimeError, [])
   \<and> CsvFile \<lparr>index_name = None, index = [IntNum 0],
            columns = [(''ModelID'', [Str ''A'']), (''KRAS'', [Num (Finite 0.9)])]\<rparr> \<noteq> BadFile
   \<and> preprocess (\<lambda>s. F64 NaN)
       \<lparr>expression_csv = NoFile, mutation_damaging_csv = NoFile,
        mutation_hotspot_csv = NoFile, cnv_csv = NoFile,
        dependency_csv = CsvFile \<lparr>index_name = None, index = [IntNum 0],
            columns = [(''ModelID'', [Str ''A'']), (''KRAS'', [Num (Finite 0.9)])]\<rparr>\<rparr>
     = (Some RuntimeError, [])
   \<and> preprocess (\<lambda>s. F64 NaN)
       \<lparr>expression_csv = CsvFile \<lparr>index_name = None, index = [IntNum 0],
            columns = [(''ModelID'', [Str ''A'']), (''TP53'', [Num (Finite 1)])]\<rparr>,
        mutation_damaging_csv = NoFile,
        mutation_hotspot_csv = NoFile, cnv_csv = NoFile, dependency_csv = BadFile\<rparr>
     = (Some ParserError,
        [(''outputs/merged_biomarkers.csv'',
          MergedTable \<lparr>id_name = ''ModelID'', ids = [Str ''A''],
            features = [(''TP53'', [Float (Finite 1)])]\<rparr>),
         (''outputs/processed_features.csv'',
          MergedTable \<lparr>id_name = ''ModelID'', ids = [Str ''A''],
            features = [(''TP53'', [Float (Finite 1)])]\<rparr>)])"
proof -
  let ?bad = "\<lparr>index_name = None, index = [IntNum 0],
      columns = [(''TP53'', [Num (Finite 1)])]\<rparr>"
  let ?files1 = "\<lparr>expression_csv = CsvFile ?bad, mutation_damaging_csv = NoFile,
        mutation_hotspot_csv = NoFile, cnv_csv = NoFile, dependency_csv = NoFile\<rparr>"
  let ?files2 = "\<lparr>expression_csv = CsvFile \<lparr>index_name = None, index = [IntNum 0],
            columns = [(''ModelID'', [Str ''A'']), (''TP53'', [Num (Finite 1)])]\<rparr>,
        mutation_damaging_csv = CsvFile \<lparr>index_name = None, index = [IntNum 0],
            columns = [(''ModelID'', [Str ''B'']), (''KRAS'', [IntNum 1])]\<rparr>,
        mutation_hotspot_csv = NoFile, cnv_csv = NoFile, dependency_csv = NoFile\<rparr>"
  let ?files3 = "\<lparr>expression_csv = NoFile, mutation_damaging_csv = NoFile,
        mutation_hotspot_csv = NoFile, cnv_csv = NoFile, dependency_csv = NoFile\<rparr>"
  have lacks: "CsvFile ?bad \<in> {expression_csv ?files1, mutation_damaging_csv ?files1,
                mutation_hotspot_csv ?files1, cnv_csv ?files1} \<and>
      ''ModelID'' \<notin> set (column_names ?bad) \<and> index_name ?bad \<noteq> Some ''ModelID''"
    by (simp add: column_names_def)
  have e1: "fst (preprocess (\<lambda>s. F64 NaN) ?files1) = Some ValueError"
    by (simp add: merger_eval)
  from preprocess_fails_without_output [of ?bad ?files1 "\<lambda>s. F64 NaN"] lacks
  have "preprocess (\<lambda>s. F64 NaN) ?files1 = (Some ValueError, []) \<or>
      preprocess (\<lambda>s. F64 NaN) ?files1 = (Some ParserError, [])" by blast
  with e1 have a: "preprocess (\<lambda>s. F64 NaN) ?files1 = (Some ValueError, [])" by auto
  have src: "source_ids ?files2 = [[Str ''A''], [Str ''B'']]"
    by (simp add: source_ids_def ids_of_def model_ids_def)
  have none: "(\<Inter>labels \<in> set (source_ids ?files2). set labels) = {}"
    unfolding src by simp
  have e2: "fst (preprocess (\<lambda>s. F64 NaN) ?files2) = Some RuntimeError"
    by (simp add: merger_eval enumerate_eq_zip)
  from preprocess_fails_without_output [of _ ?files2 "\<lambda>s. F64 NaN"] none
  obtain e where "preprocess (\<lambda>s. F64 NaN) ?files2 = (Some e, [])" by blast
  with e2 have b: "preprocess (\<lambda>s. F64 NaN) ?files2 = (Some RuntimeError, [])" by auto
  have src3: "source_ids ?files3 = []"
    by (simp add: source_ids_def ids_of_def)
  have e3: "fst (preprocess (\<lambda>s. F64 NaN) ?files3) = Some RuntimeError"
    by (simp add: merger_eval)
  from preprocess_fails_without_output [of _ ?files3 "\<lambda>s. F64 NaN"] src3
  obtain e' where "preprocess (\<lambda>s. F64 NaN) ?files3 = (Some e', [])" by blast
  with e3 have c: "preprocess (\<lambda>s. F64 NaN) ?files3 = (Some RuntimeError, [])" by auto
  have d: "preprocess (\<lambda>s. F64 NaN)
       \<lparr>expression_csv = CsvFile \<lparr>index_name = None, index = [IntNum 0],
            columns = [(''ModelID'', [Str ''A'']), (''TP53'', [Num (Finite 1)])]\<rparr>,
        mutation_damaging_csv = NoFile,
        mutation_hotspot_csv = NoFile, cnv_csv = NoFile, dependency_csv = BadFile\<rparr>
     = (Some ParserError,
        [(''outputs/merged_biomarkers.csv'',
          MergedTable \<lparr>id_name = ''ModelID'', ids = [Str ''A''],
            features = [(''TP53'', [Float (Finite 1)])]\<rparr>),
         (''outputs/processed_features.csv'',
          MergedTable \<lparr>id_name = ''ModelID'', ids = [Str ''A''],
            features = [(''TP53'', [Float (Finite 1)])]\<rparr>)])"
    by (simp add: merger_eval enumerate_eq_zip)
  let ?deps = "\<lparr>index_name = None, index = [IntNum 0],
      columns = [(''ModelID'', [Str ''A'']), (''KRAS'', [Num (Finite 0.9)])]\<rparr>"
  let ?files4 = "\<lparr>expression_csv = NoFile, mutation_damaging_csv = NoFile,
        mutation_hotspot_csv = NoFile, cnv_csv = NoFile, dependency_csv = CsvFile ?deps\<rparr>"
  have readable: "CsvFile ?deps \<noteq> BadFile" by simp
  have e4: "fst (preprocess (\<lambda>s. F64 NaN) ?files4) = Some RuntimeError"
    by (simp add: merger_eval)
  then have "preprocess (\<lambda>s. F64 NaN) ?files4
      = (Some RuntimeError, snd (preprocess (\<lambda>s. F64 NaN) ?files4))"
    by (simp add: prod_eq_iff)
  with preprocess_fails_without_output [of _ ?files4 "\<lambda>s. F64 NaN" RuntimeError
      "snd (preprocess (\<lambda>s. F64 NaN) ?files4)"] readable
  have "snd (preprocess (\<lambda>s. F64 NaN) ?files4) = []" by simp
  with e4 have f: "preprocess (\<lambda>s. F64 NaN) ?files4 = (Some RuntimeError, [])"
    by (simp add: prod_eq_iff)
  have dis: "set [Str ''A''] \<inter> set [Str ''B''] = {}" by simp
  from lacks a src dis b c readable f d show ?thesis by blast
qed

text \<open>
  Where the claim as written fails: the copy-number table has the \<open>ModelID\<close>
  column and no rows, the expression table has the models \<open>A\<close> and \<open>B\<close>.  The
  two input tables share no model id, yet the run succeeds and writes the merged
  table with both rows.
\<close>

theorem preprocess_empty_table_skipped_counterexample:
  "set (model_ids \<lparr>index_name = None, index = [IntNum 0, IntNum 1],
          columns = [(''ModelID'', [Str ''A'', Str ''B'']),
                     (''TP53'', [Num (Finite 1), Num (Finite 3)])]\<rparr>)
     \<inter> set (model_ids \<lparr>index_name = None, index = [],
          columns = [(''ModelID'', []), (''CDKN2A'', [])]\<rparr>) = {}
   \<and> preprocess (\<lambda>s. F64 NaN)
     \<lparr>expression_csv = CsvFile \<lparr>index_name = None, index = [IntNum 0, IntNum 1],
          columns = [(''ModelID'', [Str ''A'', Str ''B'']),
                     (''TP53'', [Num (Finite 1), Num (Finite 3)])]\<rparr>,
      mutation_damaging_csv = NoFile, mutation_hotspot_csv = NoFile,
      cnv_csv = CsvFile \<lparr>index_name = None, index = [],
          columns = [(''ModelID'', []), (''CDKN2A'', [])]\<rparr>,
      dependency_csv = NoFile\<rparr>
   = (None,
      [(''outputs/merged_biomarkers.csv'',
        MergedTable \<lparr>id_name = ''ModelID'', ids = [Str ''A'', Str ''B''],
          features = [(''TP53'', [Float (Finite 1), Float (Finite 3)])]\<rparr>),
       (''outputs/processed_features.csv'',
        MergedTable \<lparr>id_name = ''ModelID'', ids = [Str ''A'', Str ''B''],
          features = [(''TP53'', [Float (Finite 1), Float (Finite 3)])]\<rparr>)])"
  by (simp add: merger_eval model_ids_def enumerate_eq_zip)

text \<open>
  Claim C9, where the code departs from it.  \<open>binarize_cnv_loss\<close> fills NaN with
  0 before it compares, so under a positive threshold a NaN entry becomes 1, not
  0.  \<open>binarize_any_nonzero\<close> takes \<open>abs()\<close> in the dtype of the column: the least
  int64 is its own negation, is not above 0, and becomes 0 though it is not
  zero.
\<close>

theorem binarize_nan_and_int64_min:
  "cnv_loss_cell (Finite 0.5) (F64 NaN) = 1 \<and>
   columns (binarize_cnv_loss
      \<lparr>index_name = Some ''ModelID'', index = [Str ''ACH-000001'', Str ''ACH-000002''],
       columns = [(''CDKN2A'', [F64 NaN, F64 (Finite 0.7)])]\<rparr> (Finite 0.5))
     = [(''CDKN2A'', [1, 0])] \<and>
   sint (- 9223372036854775808 :: 64 word) = - (2 ^ 63) \<and>
   any_nonzero_cell (I64 (- 9223372036854775808)) = 0 \<and>
   columns (binarize_any_nonzero
      \<lparr>index_name = Some ''ModelID'', index = [Str ''ACH-000001'', Str ''ACH-000002''],
       columns = [(''TP53'', [I64 (- 9223372036854775808), I64 (- 2)])]\<rparr>)
     = [(''TP53'', [0, 1])]"
  by (simp add: binarize_cnv_loss_def binarize_any_nonzero_def map_frame_def
      cnv_loss_cell_def any_nonzero_cell_def fillna0_def abs64_def f_less_def as_int8_def)

end
